theory Spec2Isabelle
  imports Complex_Main "HOL-Library.Product_Lexorder" "HOL-Library.Multiset"
begin

section \<open>Values and errors\<close>

text \<open>
  The numeric cells of the arrays and frames the code works on are floating-point
  numbers. They are modelled by their mathematical value (\<open>Flt r\<close>) together with the
  three special values of the format: the two infinities and the missing value \<open>NaN\<close>.
  The arithmetic on numbers is exact: the rounding of a sum, a product or a quotient to
  the nearest float is not part of the model (the cast to float32 of metrics.py is, see
  below). Nor is the sign of zero: there is one zero, \<open>Flt 0\<close>, and \<open>vdiv\<close> divides by it
  as by the positive zero, so that \<open>x / 0\<close> is the infinity of the sign of \<open>x\<close>; in the
  code it is the infinity of the opposite sign when the zero is negative. The arithmetic
  on the special values is the one of numpy and pandas (nothing raises).
\<close>

datatype val = Flt real | PosInf | NegInf | NaN

fun isnan :: "val \<Rightarrow> bool" where
  "isnan NaN = True"
| "isnan _ = False"

fun vneg :: "val \<Rightarrow> val" where
  "vneg (Flt a) = Flt (- a)"
| "vneg PosInf = NegInf"
| "vneg NegInf = PosInf"
| "vneg NaN = NaN"

fun vadd :: "val \<Rightarrow> val \<Rightarrow> val" where
  "vadd (Flt a) (Flt b) = Flt (a + b)"
| "vadd (Flt a) PosInf = PosInf"
| "vadd (Flt a) NegInf = NegInf"
| "vadd PosInf (Flt b) = PosInf"
| "vadd PosInf PosInf = PosInf"
| "vadd PosInf NegInf = NaN"
| "vadd NegInf (Flt b) = NegInf"
| "vadd NegInf NegInf = NegInf"
| "vadd NegInf PosInf = NaN"
| "vadd NaN b = NaN"
| "vadd a NaN = NaN"

definition vsub :: "val \<Rightarrow> val \<Rightarrow> val" where
  "vsub a b = vadd a (vneg b)"

text \<open>The sign of a value that is not \<open>NaN\<close>: \<open>-1\<close>, \<open>0\<close> or \<open>1\<close>.\<close>

fun vsgn :: "val \<Rightarrow> int" where
  "vsgn (Flt a) = (if a < 0 then - 1 else if a = 0 then 0 else 1)"
| "vsgn PosInf = 1"
| "vsgn NegInf = - 1"
| "vsgn NaN = 0"

definition signed_inf :: "int \<Rightarrow> val" where
  "signed_inf s = (if s = 0 then NaN else if 0 < s then PosInf else NegInf)"

fun vmul :: "val \<Rightarrow> val \<Rightarrow> val" where
  "vmul (Flt a) (Flt b) = Flt (a * b)"
| "vmul NaN b = NaN"
| "vmul a NaN = NaN"
| "vmul a b = signed_inf (vsgn a * vsgn b)"

text \<open>
  Division as numpy and pandas perform it on floats: a finite value over zero is an
  infinity with the sign of the numerator, zero over zero is \<open>NaN\<close>, and nothing raises.
\<close>

fun vdiv :: "val \<Rightarrow> val \<Rightarrow> val" where
  "vdiv (Flt a) (Flt b) = (if b = 0 then signed_inf (vsgn (Flt a)) else Flt (a / b))"
| "vdiv NaN b = NaN"
| "vdiv a NaN = NaN"
| "vdiv (Flt a) b = Flt 0"
| "vdiv a (Flt b) = signed_inf (vsgn a * (if b < 0 then - 1 else 1))"
| "vdiv a b = NaN"

definition vsum :: "val list \<Rightarrow> val" where
  "vsum xs = foldl vadd (Flt 0) xs"

text \<open>
  The exceptions the code raises. A \<open>ValueError\<close> carries the data its message is
  formatted from.
\<close>

datatype message =
    Lengths nat nat
  | Cannot_calculate int nat
  | Invalid_delta string
  | Invalid_attribute string
  | Pandas string

datatype error =
    ValueError message
  | KeyError string
  | IndexError
  | AttributeError string
  | IOError string
  | TypeError

section \<open>Ranking metrics (metrics.py)\<close>

text \<open>
  \<open>to_float\<close> (util.py) casts its arrays to float32:
  \<^verbatim>\<open>np.array(a, dtype=np.float32)\<close>. \<open>float32\<close> is that cast of one value: the nearest
  number with a significand of 24 bits, the even one of two nearest, with the exponent
  not below \<open>-126\<close>, and an infinity from \<open>2 ^ 128\<close> on. Two scores that are cast to the
  same number are equal for everything \<open>top_k\<close> does after the cast.
\<close>

definition round_half_even :: "real \<Rightarrow> int" where
  "round_half_even r =
     (if r - of_int \<lfloor>r\<rfloor> < 1 / 2 then \<lfloor>r\<rfloor>
      else if 1 / 2 < r - of_int \<lfloor>r\<rfloor> then \<lfloor>r\<rfloor> + 1
      else if even \<lfloor>r\<rfloor> then \<lfloor>r\<rfloor> else \<lfloor>r\<rfloor> + 1)"

definition exponent32 :: "real \<Rightarrow> int" where
  "exponent32 x = max (- 126) \<lfloor>log 2 \<bar>x\<bar>\<rfloor>"

definition float32 :: "val \<Rightarrow> val" where
  "float32 v =
     (case v of
        Flt x \<Rightarrow>
          if x = 0 then Flt 0
          else
            let ulp = 2 powi (exponent32 x - 23);
                r = of_int (round_half_even (x / ulp)) * ulp
            in if 2 powi 128 \<le> \<bar>r\<bar> then (if 0 < x then PosInf else NegInf) else Flt r
      | _ \<Rightarrow> v)"

definition to_float :: "val list \<Rightarrow> val list" where
  "to_float a = map float32 a"

text \<open>
  The sum of a float32 array is a float32: it is the result of additions of two numbers,
  each of them rounded. numpy fixes neither the order nor the grouping of these additions
  (a long array is added by blocks), so the functions below take the sum as an argument.
  \<open>sums32 xs s\<close> says that \<open>s\<close> is the result of such additions on the elements of \<open>xs\<close>,
  taken in some order and grouping, and \<open>is_sum32\<close> says what is known of the sum.
  \<open>sum32\<close>, which adds from left to right, is one such function.
\<close>

inductive sums32 :: "val list \<Rightarrow> val \<Rightarrow> bool" where
  sums32_empty: "sums32 [] (Flt 0)"
| sums32_single: "sums32 [v] v"
| sums32_add:
    "sums32 xs a \<Longrightarrow> sums32 ys b \<Longrightarrow> mset zs = mset xs + mset ys \<Longrightarrow>
     sums32 zs (float32 (vadd a b))"

definition is_sum32 :: "(val list \<Rightarrow> val) \<Rightarrow> bool" where
  "is_sum32 array_sum = (\<forall>xs. sums32 xs (array_sum xs))"

definition sum32 :: "val list \<Rightarrow> val" where
  "sum32 xs = foldl (\<lambda>a b. float32 (vadd a b)) (Flt 0) xs"

text \<open>
  \<open>argsort\<close> of numpy returns the positions of an array in ascending order of value,
  with \<open>NaN\<close> after every number; \<open>rank_key\<close> is that order. Among equal values numpy
  fixes no order, so the functions below take \<open>argsort\<close> as an argument: \<open>is_argsort\<close>
  says what is known of it. \<open>stable_argsort\<close>, which keeps equal values in the order of
  their positions, is one such function.
\<close>

fun rank_key :: "val \<Rightarrow> nat \<times> real" where
  "rank_key NegInf = (0, 0)"
| "rank_key (Flt a) = (1, a)"
| "rank_key PosInf = (2, 0)"
| "rank_key NaN = (3, 0)"

definition ascending :: "val list \<Rightarrow> nat list \<Rightarrow> bool" where
  "ascending ys ranks =
     (distinct ranks \<and> set ranks = {..<length ys} \<and>
      sorted (map (\<lambda>i. rank_key (ys ! i)) ranks))"

definition is_argsort :: "(val list \<Rightarrow> nat list) \<Rightarrow> bool" where
  "is_argsort argsort = (\<forall>ys. ascending ys (argsort ys))"

definition stable_argsort :: "val list \<Rightarrow> nat list" where
  "stable_argsort ys = sort_key (\<lambda>i. rank_key (ys ! i)) [0..<length ys]"

text \<open>The slice \<open>xs[s:]\<close> of Python, for any integer \<open>s\<close>.\<close>

definition slice_from :: "'a list \<Rightarrow> int \<Rightarrow> 'a list" where
  "slice_from xs s =
     (if s < 0 then drop (nat (max 0 (int (length xs) + s))) xs else drop (nat s) xs)"

text \<open>Boolean-mask indexing \<open>a[mask]\<close> and fancy indexing \<open>a[idx]\<close>.\<close>

definition masked :: "'a list \<Rightarrow> bool list \<Rightarrow> 'a list" where
  "masked xs bs = map fst (filter snd (zip xs bs))"

definition take_idx :: "'a list \<Rightarrow> nat list \<Rightarrow> 'a list" where
  "take_idx xs idx = map (\<lambda>i. xs ! i) idx"

definition count_true :: "bool list \<Rightarrow> nat" where
  "count_true bs = length (filter (\<lambda>b. b) bs)"

text \<open>
  \<open>top_k\<close>, with the \<open>argsort\<close> and the \<open>sum\<close> of numpy as its first arguments.
\<close>

definition top_k ::
  "(val list \<Rightarrow> nat list) \<Rightarrow> (val list \<Rightarrow> val) \<Rightarrow> val list \<Rightarrow> val list \<Rightarrow> int \<Rightarrow> bool
     \<Rightarrow> error + (val \<times> int)" where
  "top_k argsort array_sum y_true y_score k extrapolate =
     (if length y_true \<noteq> length y_score
      then Inl (ValueError (Lengths (length y_true) (length y_score)))
      else if k = 0 then Inr (Flt 0, 0)
      else
        let y_true = to_float y_true;
            y_score = to_float y_score;
            labeled = map (\<lambda>v. \<not> isnan v) y_true;
            n = (if extrapolate then length y_true else count_true labeled)
        in if \<not> extrapolate \<and> k > int n then Inl (ValueError (Cannot_calculate k n))
           else if extrapolate then
             let ranks = argsort y_score;
                 top = slice_from ranks (- k);
                 labeled_top = map (\<lambda>v. \<not> isnan v) (take_idx y_true top)
             in Inr (array_sum (masked (take_idx y_true top) labeled_top),
                     int (count_true labeled_top))
           else
             let y_true = masked y_true labeled;
                 y_score = masked y_score labeled;
                 ranks = argsort y_score;
                 top = slice_from ranks (- k)
             in Inr (array_sum (take_idx y_true top), k))"

text \<open>
  \<open>precision_at_k\<close> returns the precision alone, or with \<open>extrapolate\<close> and
  \<open>return_bounds\<close> the triple of the precision, the number of labeled examples and the
  pair of bounds. The quotients are exact, as everywhere.
\<close>

datatype precision = Precision val | With_bounds val int "val \<times> val"

definition precision_at_k ::
  "(val list \<Rightarrow> nat list) \<Rightarrow> (val list \<Rightarrow> val) \<Rightarrow> val list \<Rightarrow> val list \<Rightarrow> int \<Rightarrow> bool
     \<Rightarrow> bool \<Rightarrow> error + precision" where
  "precision_at_k argsort array_sum y_true y_score k extrapolate return_bounds =
     (case top_k argsort array_sum y_true y_score k extrapolate of
        Inl e \<Rightarrow> Inl e
      | Inr (n, d) \<Rightarrow>
          let p = (if d \<noteq> 0 then vdiv (vmul n (Flt 1)) (Flt (of_int d)) else NaN)
          in if extrapolate then
               let bounds =
                     (if k \<noteq> 0
                      then (vdiv n (Flt (of_int k)),
                            vdiv (vsub (vadd n (Flt (of_int k))) (Flt (of_int d))) (Flt (of_int k)))
                      else (NaN, NaN))
               in if return_bounds then Inr (With_bounds p d bounds) else Inr (Precision p)
             else Inr (Precision p))"

section \<open>Window tokens and column names (aggregate.py)\<close>

text \<open>
  \<open>delta_chars\<close> is the table from the unit character to the keyword of
  \<open>relativedelta\<close>.
\<close>

definition delta_chars :: "string \<rightharpoonup> string" where
  "delta_chars = map_of
     [(''y'', ''years''), (''m'', ''months''), (''w'', ''weeks''), (''d'', ''days''),
      (''h'', ''hours''), (''M'', ''minutes''), (''s'', ''seconds''),
      (''u'', ''microseconds'')]"

text \<open>
  \<open>delta_regex\<close> is \<^verbatim>\<open>^([0-9]+)(u|s|M|h|d|m|y)$\<close>. The pattern is anchored at the start of
  the string, so \<open>findall\<close> returns at most one pair of groups. A unit is not a digit, so
  the first group is the whole leading run of digits. \<^verbatim>\<open>$\<close> matches at the end of the
  string and also just before a newline that ends the string.
\<close>

definition is_digit :: "char \<Rightarrow> bool" where
  "is_digit c = (c \<in> set ''0123456789'')"

definition delta_regex_findall :: "string \<Rightarrow> (string \<times> string) list" where
  "delta_regex_findall s =
     (let digits = takeWhile is_digit s in
      case dropWhile is_digit s of
        [] \<Rightarrow> []
      | u # rest \<Rightarrow>
          if digits \<noteq> [] \<and> u \<in> set ''usMhdmy'' \<and> (rest = [] \<or> rest = [CHR 0x0A])
          then [(digits, [u])] else [])"

text \<open>\<open>int\<close> of a string of decimal digits.\<close>

definition digit_value :: "char \<Rightarrow> nat" where
  "digit_value c = of_char c - 48"

definition int_of_digits :: "string \<Rightarrow> nat" where
  "int_of_digits s = foldl (\<lambda>a c. 10 * a + digit_value c) 0 s"

text \<open>
  A window is the call \<open>relativedelta(**{keyword: count})\<close>; \<open>None\<close> stands for the
  unbounded window.
\<close>

datatype relativedelta = Relativedelta string nat

definition parse_delta :: "string \<Rightarrow> error + relativedelta option" where
  "parse_delta s =
     (if s = ''all'' then Inr None
      else
        let l = delta_regex_findall s in
        if length l = 1 then
          (case delta_chars (snd (l ! 0)) of
             None \<Rightarrow> Inl (KeyError (snd (l ! 0)))
           | Some keyword \<Rightarrow> Inr (Some (Relativedelta keyword (int_of_digits (fst (l ! 0))))))
        else Inl (ValueError (Invalid_delta s)))"

text \<open>
  The name of a column of the pivoted panel, as \<open>read\<close> formats it:
  \<^verbatim>\<open>'{0}_{1}_{2}_{3}'.format(prefix, space, delta, column)\<close>.
\<close>

definition column_name :: "string \<Rightarrow> string \<Rightarrow> string \<Rightarrow> string \<Rightarrow> string" where
  "column_name prefix space delta column =
     prefix @ ''_'' @ space @ ''_'' @ delta @ ''_'' @ column"

text \<open>
  \<open>spacetime_prefix_regex\<close> is \<^verbatim>\<open>^(([^_]+_){3})\<close>. One repetition \<^verbatim>\<open>[^_]+_\<close> matches a
  non-empty run of characters other than the underscore and the underscore after it;
  \<open>match_field\<close> returns the matched text and the rest. The pattern is anchored, so
  \<open>findall\<close> returns at most one pair: the three fields, and the last field.
\<close>

definition match_field :: "string \<Rightarrow> (string \<times> string) option" where
  "match_field s =
     (let field = takeWhile (\<lambda>c. c \<noteq> CHR ''_'') s in
      case dropWhile (\<lambda>c. c \<noteq> CHR ''_'') s of
        [] \<Rightarrow> None
      | u # rest \<Rightarrow> if field \<noteq> [] then Some (field @ [u], rest) else None)"

definition spacetime_prefix_regex_findall :: "string \<Rightarrow> (string \<times> string) list" where
  "spacetime_prefix_regex_findall s =
     (case match_field s of
        None \<Rightarrow> []
      | Some (f1, r1) \<Rightarrow>
          (case match_field r1 of
             None \<Rightarrow> []
           | Some (f2, r2) \<Rightarrow>
               (case match_field r2 of
                  None \<Rightarrow> []
                | Some (f3, r3) \<Rightarrow> [(f1 @ f2 @ f3, f3)])))"

definition get_spacetime_prefix :: "string \<Rightarrow> error + string" where
  "get_spacetime_prefix column =
     (case spacetime_prefix_regex_findall column of
        [] \<Rightarrow> Inl IndexError
      | m # _ \<Rightarrow> Inr (fst m))"

section \<open>Data frames\<close>

text \<open>
  A cell of a frame is a number, a string, a timestamp (its ordinal) or the missing
  timestamp \<open>NaT\<close>. A frame has one label per row (a tuple of cells) and its columns in
  order, each with one cell per row.
\<close>

datatype cell = Number val | Text string | Date int | NaT

record frame =
  labels :: "cell list list"
  cols :: "(string \<times> cell list) list"

definition nrows :: "frame \<Rightarrow> nat" where
  "nrows df = length (labels df)"

definition column_names :: "frame \<Rightarrow> string list" where
  "column_names df = map fst (cols df)"

text \<open>\<open>df[name]\<close>: the column, or \<open>KeyError\<close>.\<close>

definition get_column :: "frame \<Rightarrow> string \<Rightarrow> error + cell list" where
  "get_column df name =
     (case map_of (cols df) name of None \<Rightarrow> Inl (KeyError name) | Some c \<Rightarrow> Inr c)"

text \<open>\<open>df[name] = values\<close>: replaces the column of that name, or appends a new one.\<close>

definition set_column :: "frame \<Rightarrow> string \<Rightarrow> cell list \<Rightarrow> frame" where
  "set_column df name values =
     df\<lparr>cols :=
        (if name \<in> set (column_names df)
         then map (\<lambda>(n, c). if n = name then (n, values) else (n, c)) (cols df)
         else cols df @ [(name, values)])\<rparr>"

text \<open>\<open>df[mask]\<close>: the rows where the mask holds.\<close>

definition select_rows :: "frame \<Rightarrow> bool list \<Rightarrow> frame" where
  "select_rows df m =
     \<lparr>labels = masked (labels df) m, cols = map (\<lambda>(n, c). (n, masked c m)) (cols df)\<rparr>"

text \<open>
  The first error of a list of results, or all the values.
\<close>

fun collect :: "(error + 'a) list \<Rightarrow> error + 'a list" where
  "collect [] = Inr []"
| "collect (Inl e # rs) = Inl e"
| "collect (Inr x # rs) = (case collect rs of Inl e \<Rightarrow> Inl e | Inr xs \<Rightarrow> Inr (x # xs))"

section \<open>Censoring (aggregate.py)\<close>






section \<open>Aggregation (aggregate.py)\<close>

text \<open>
  The model is of the calls with \<open>weight=None\<close>, the default: the two branches
  \<open>if weight is not None\<close> are not taken.

  A numerator or denominator of an aggregate is a callable on the frame, a string or a
  scalar. \<open>series\<close> (the function \<open>__series\<close>) resolves it: the callable is applied, a
  string must be a column of the frame, a scalar stays what it is.
\<close>

datatype attr = Callable "frame \<Rightarrow> cell list" | Str string | Scalar val

datatype operand = Series "cell list" | Scalar_value cell

definition series :: "frame \<Rightarrow> attr \<Rightarrow> error + operand" where
  "series df attr =
     (case attr of
        Callable f \<Rightarrow> Inr (Series (f df))
      | Str s \<Rightarrow>
          if s \<in> set (column_names df)
          then (case get_column df s of Inl e \<Rightarrow> Inl e | Inr c \<Rightarrow> Inr (Series c))
          else Inl (ValueError (Invalid_attribute s))
      | Scalar v \<Rightarrow> Inr (Scalar_value (Number v)))"

text \<open>
  An aggregation function is a name that pandas knows or a callable on the values of a
  group. The named ones skip \<open>NaN\<close>; the sum, the mean, the minimum and the maximum of a
  group without a value are \<open>NaN\<close>.
\<close>

datatype aggfunc = Named string | Function "val list \<Rightarrow> val"

definition notnull :: "val list \<Rightarrow> val list" where
  "notnull vs = filter (\<lambda>v. \<not> isnan v) vs"

definition agg_sum :: "val list \<Rightarrow> val" where
  "agg_sum vs = (if notnull vs = [] then NaN else vsum (notnull vs))"

definition agg_count :: "val list \<Rightarrow> val" where
  "agg_count vs = Flt (real (length (notnull vs)))"

definition agg_mean :: "val list \<Rightarrow> val" where
  "agg_mean vs =
     (if notnull vs = [] then NaN
      else vdiv (vsum (notnull vs)) (Flt (real (length (notnull vs)))))"

definition agg_min :: "val list \<Rightarrow> val" where
  "agg_min vs =
     (case notnull vs of
        [] \<Rightarrow> NaN
      | x # xs \<Rightarrow> foldl (\<lambda>a b. if rank_key b < rank_key a then b else a) x xs)"

definition agg_max :: "val list \<Rightarrow> val" where
  "agg_max vs =
     (case notnull vs of
        [] \<Rightarrow> NaN
      | x # xs \<Rightarrow> foldl (\<lambda>a b. if rank_key a < rank_key b then b else a) x xs)"

definition apply_func :: "aggfunc \<Rightarrow> val list \<Rightarrow> error + val" where
  "apply_func f vs =
     (case f of
        Function g \<Rightarrow> Inr (g vs)
      | Named n \<Rightarrow>
          if n = ''sum'' then Inr (agg_sum vs)
          else if n = ''count'' then Inr (agg_count vs)
          else if n = ''mean'' then Inr (agg_mean vs)
          else if n = ''min'' then Inr (agg_min vs)
          else if n = ''max'' then Inr (agg_max vs)
          else Inl (AttributeError n))"

text \<open>
  The definition of one aggregate: a dictionary in which each of the four keys may be
  absent.
\<close>

record agg =
  numerator :: "attr option"
  denominator :: "attr option"
  func :: "aggfunc option"
  denominator_func :: "aggfunc option"

text \<open>The argument \<open>index\<close>: a column name or a list of column names.\<close>

datatype index_arg = Name string | Names "string list"

text \<open>\<open>df[names]\<close>: the frame of the named columns.\<close>

definition select_columns :: "frame \<Rightarrow> string list \<Rightarrow> error + frame" where
  "select_columns df names =
     (case collect (map (\<lambda>n. case get_column df n of Inl e \<Rightarrow> Inl e | Inr c \<Rightarrow> Inr (n, c))
                      names) of
        Inl e \<Rightarrow> Inl e
      | Inr cs \<Rightarrow> Inr \<lparr>labels = labels df, cols = cs\<rparr>)"

text \<open>\<open>df[name] = x\<close> for a series or a scalar, which is repeated on every row.\<close>

definition assign :: "frame \<Rightarrow> string \<Rightarrow> operand \<Rightarrow> error + frame" where
  "assign df name x =
     (case x of
        Series c \<Rightarrow>
          if length c = nrows df then Inr (set_column df name c)
          else Inl (ValueError (Pandas ''Length of values does not match length of index''))
      | Scalar_value c \<Rightarrow> Inr (set_column df name (replicate (nrows df) c)))"

text \<open>\<open>d[k] = v\<close> on a dictionary.\<close>

definition dict_set :: "('k \<times> 'v) list \<Rightarrow> 'k \<Rightarrow> 'v \<Rightarrow> ('k \<times> 'v) list" where
  "dict_set d k v =
     (if k \<in> set (map fst d)
      then map (\<lambda>(k', v'). if k' = k then (k', v) else (k', v')) d
      else d @ [(k, v)])"

text \<open>
  One turn of the loop that generates the numerators and denominators, on the frame
  \<open>df2\<close> and the dictionary \<open>agg_dict\<close>.
\<close>

definition add_metric ::
  "frame \<Rightarrow> frame \<times> (string \<times> aggfunc) list \<Rightarrow> string \<times> agg
     \<Rightarrow> error + frame \<times> (string \<times> aggfunc) list" where
  "add_metric df st m =
     (case st of (df2, agg_dict) \<Rightarrow>
      case m of (column, agg) \<Rightarrow>
      case (case numerator agg of
              Some a \<Rightarrow> series df a
            | None \<Rightarrow> Inr (Series (replicate (nrows df) (Number (Flt 1))))) of
        Inl e \<Rightarrow> Inl e
      | Inr num \<Rightarrow>
          (case assign df2 (column @ ''_numerator'') num of
             Inl e \<Rightarrow> Inl e
           | Inr df2a \<Rightarrow>
               let f = (case func agg of None \<Rightarrow> Named ''sum'' | Some f \<Rightarrow> f);
                   agg_dict_a = dict_set agg_dict (column @ ''_numerator'') f
               in (case denominator agg of
                     None \<Rightarrow> Inr (df2a, agg_dict_a)
                   | Some a \<Rightarrow>
                       (case series df a of
                          Inl e \<Rightarrow> Inl e
                        | Inr den \<Rightarrow>
                            (case assign df2a (column @ ''_denominator'') den of
                               Inl e \<Rightarrow> Inl e
                             | Inr df2b \<Rightarrow>
                                 Inr (df2b,
                                      dict_set agg_dict_a (column @ ''_denominator'')
                                        (case denominator_func agg of
                                           Some g \<Rightarrow> g | None \<Rightarrow> f)))))))"

fun add_metrics ::
  "frame \<Rightarrow> frame \<times> (string \<times> aggfunc) list \<Rightarrow> (string \<times> agg) list
     \<Rightarrow> error + frame \<times> (string \<times> aggfunc) list" where
  "add_metrics df st [] = Inr st"
| "add_metrics df st (m # ms) =
     (case add_metric df st m of Inl e \<Rightarrow> Inl e | Inr st' \<Rightarrow> add_metrics df st' ms)"

text \<open>
  \<open>groupby\<close>. The key of a row is the tuple of its cells in the grouping columns. Rows with
  a missing cell in the key belong to no group, and the groups come in ascending order of
  key: cells of one kind in their own order, numbers before timestamps before strings.
\<close>

fun is_null :: "cell \<Rightarrow> bool" where
  "is_null (Number v) = isnan v"
| "is_null NaT = True"
| "is_null c = False"

fun string_le :: "string \<Rightarrow> string \<Rightarrow> bool" where
  "string_le [] t = True"
| "string_le (c # s) [] = False"
| "string_le (c # s) (d # t) =
     ((of_char c :: nat) < of_char d \<or> (c = d \<and> string_le s t))"

fun cell_le :: "cell \<Rightarrow> cell \<Rightarrow> bool" where
  "cell_le (Number a) (Number b) = (rank_key a \<le> rank_key b)"
| "cell_le (Number a) c = True"
| "cell_le (Date d) (Number b) = False"
| "cell_le (Date d) (Date e) = (d \<le> e)"
| "cell_le (Date d) c = True"
| "cell_le (Text s) (Text t) = string_le s t"
| "cell_le (Text s) NaT = True"
| "cell_le (Text s) c = False"
| "cell_le NaT NaT = True"
| "cell_le NaT c = False"

fun key_le :: "cell list \<Rightarrow> cell list \<Rightarrow> bool" where
  "key_le [] l = True"
| "key_le (c # k) [] = False"
| "key_le (c # k) (d # l) = (if c = d then key_le k l else cell_le c d)"

fun insert_by :: "('a \<Rightarrow> 'a \<Rightarrow> bool) \<Rightarrow> 'a \<Rightarrow> 'a list \<Rightarrow> 'a list" where
  "insert_by le k [] = [k]"
| "insert_by le k (l # ls) = (if le k l then k # l # ls else l # insert_by le k ls)"

definition sort_by :: "('a \<Rightarrow> 'a \<Rightarrow> bool) \<Rightarrow> 'a list \<Rightarrow> 'a list" where
  "sort_by le ks = foldr (insert_by le) ks []"

definition sort_keys :: "cell list list \<Rightarrow> cell list list" where
  "sort_keys ks = sort_by key_le ks"

fun number :: "cell \<Rightarrow> error + val" where
  "number (Number v) = Inr v"
| "number c = Inl TypeError"

definition row_keys :: "frame \<Rightarrow> string list \<Rightarrow> error + cell list list" where
  "row_keys df names =
     (case collect (map (get_column df) names) of
        Inl e \<Rightarrow> Inl e
      | Inr cs \<Rightarrow> Inr (map (\<lambda>i. map (\<lambda>c. c ! i) cs) [0..<nrows df]))"

text \<open>
  \<open>df.groupby(names).agg(agg_dict)\<close>: one row per group, one column per entry of the
  dictionary, holding the function of the entry applied to the values of the group. A
  grouping column is not among the columns that can be aggregated. \<open>agg_column\<close> is the
  column of one entry, given the key of every row and the keys of the groups. Only the
  aggregation of numeric columns is modelled: on a column with a cell that is not a
  number, what pandas does depends on the function and on the dtype of the column, and
  \<open>agg_column\<close> gives a \<open>TypeError\<close> in its place. A grouped aggregation that succeeds
  here is therefore one of numeric columns.
\<close>

definition agg_column ::
  "frame \<Rightarrow> string list \<Rightarrow> cell list list \<Rightarrow> cell list list \<Rightarrow> string \<times> aggfunc
     \<Rightarrow> error + string \<times> cell list" where
  "agg_column df names keys groups entry =
     (case entry of (c, f) \<Rightarrow>
        if c \<in> set names then Inl (KeyError c)
        else
          case get_column df c of
            Inl e \<Rightarrow> Inl e
          | Inr cs \<Rightarrow>
              (case collect (map number cs) of
                 Inl e \<Rightarrow> Inl e
               | Inr vs \<Rightarrow>
                   (case collect
                           (map (\<lambda>k. apply_func f (masked vs (map (\<lambda>k'. k' = k) keys)))
                              groups) of
                      Inl e \<Rightarrow> Inl e
                    | Inr out \<Rightarrow> Inr (c, map Number out))))"

definition groupby_agg ::
  "frame \<Rightarrow> string list \<Rightarrow> (string \<times> aggfunc) list \<Rightarrow> error + frame" where
  "groupby_agg df names agg_dict =
     (if names = [] then Inl (ValueError (Pandas ''No group keys passed!''))
      else
        case row_keys df names of
          Inl e \<Rightarrow> Inl e
        | Inr keys \<Rightarrow>
            let groups = sort_keys (remdups (filter (\<lambda>k. \<not> list_ex is_null k) keys)) in
            (case collect (map (agg_column df names keys groups) agg_dict) of
               Inl e \<Rightarrow> Inl e
             | Inr cs \<Rightarrow> Inr \<lparr>labels = groups, cols = cs\<rparr>))"

text \<open>
  Division of two columns, cell by cell; a cell that is not a number does not divide.
\<close>

definition divide_cells :: "cell \<Rightarrow> cell \<Rightarrow> error + cell" where
  "divide_cells x y =
     (case number x of
        Inl e \<Rightarrow> Inl e
      | Inr a \<Rightarrow> (case number y of Inl e \<Rightarrow> Inl e | Inr b \<Rightarrow> Inr (Number (vdiv a b))))"

definition divide_columns :: "cell list \<Rightarrow> cell list \<Rightarrow> error + cell list" where
  "divide_columns xs ys = collect (map (\<lambda>(x, y). divide_cells x y) (zip xs ys))"

text \<open>
  The first three steps of \<open>aggregate\<close>: the frame \<open>df2\<close> of the grouping columns, the
  numerators and the denominators, and its aggregation \<open>df3\<close>. Without an \<open>index\<close>,
  \<open>df3\<close> is \<open>df2\<close> itself.
\<close>

definition aggregated :: "frame \<Rightarrow> (string \<times> agg) list \<Rightarrow> index_arg option \<Rightarrow> error + frame" where
  "aggregated df columns index =
     (case (case index of
              None \<Rightarrow> Inr \<lparr>labels = labels df, cols = []\<rparr>
            | Some (Name n) \<Rightarrow> select_columns df [n]
            | Some (Names ns) \<Rightarrow> select_columns df ns) of
        Inl e \<Rightarrow> Inl e
      | Inr df2_0 \<Rightarrow>
          (case add_metrics df (df2_0, []) columns of
             Inl e \<Rightarrow> Inl e
           | Inr (df2, agg_dict) \<Rightarrow>
               (case index of
                  None \<Rightarrow> Inr df2
                | Some (Name n) \<Rightarrow> groupby_agg df2 [n] agg_dict
                | Some (Names ns) \<Rightarrow> groupby_agg df2 ns agg_dict)))"

text \<open>The last step: collect and rename.\<close>

fun collect_metrics :: "frame \<Rightarrow> frame \<Rightarrow> (string \<times> agg) list \<Rightarrow> error + frame" where
  "collect_metrics df3 df4 [] = Inr df4"
| "collect_metrics df3 df4 ((column, agg) # rest) =
     (case get_column df3 (column @ ''_numerator'') of
        Inl e \<Rightarrow> Inl e
      | Inr num \<Rightarrow>
          (case denominator agg of
             Some a \<Rightarrow>
               (case get_column df3 (column @ ''_denominator'') of
                  Inl e \<Rightarrow> Inl e
                | Inr den \<Rightarrow>
                    (case divide_columns num den of
                       Inl e \<Rightarrow> Inl e
                     | Inr q \<Rightarrow> collect_metrics df3 (set_column df4 column q) rest))
           | None \<Rightarrow> collect_metrics df3 (set_column df4 column num) rest))"

definition aggregate :: "frame \<Rightarrow> (string \<times> agg) list \<Rightarrow> index_arg option \<Rightarrow> error + frame" where
  "aggregate df columns index =
     (case aggregated df columns index of
        Inl e \<Rightarrow> Inl e
      | Inr df3 \<Rightarrow> collect_metrics df3 \<lparr>labels = labels df3, cols = []\<rparr> columns)"

section \<open>SpacetimeAggregator (aggregate.py)\<close>

text \<open>
  \<open>Spacedeltas\<close>: a spatial index and the dictionary of the windows of its tokens, parsed
  by the constructor. A token given twice has one entry.
\<close>

record spacedelta =
  spatial_index :: string
  deltas :: "(string \<times> relativedelta option) list"

definition Spacedeltas :: "string \<Rightarrow> string list \<Rightarrow> error + spacedelta" where
  "Spacedeltas index delta_strings =
     (case collect (map (\<lambda>s. case parse_delta s of Inl e \<Rightarrow> Inl e | Inr d \<Rightarrow> Inr (s, d))
                      delta_strings) of
        Inl e \<Rightarrow> Inl e
      | Inr ds \<Rightarrow>
          Inr \<lparr>spatial_index = index,
               deltas = foldl (\<lambda>d (s, delta). dict_set d s delta) [] ds\<rparr>)"

text \<open>
  The attributes of a \<open>SpacetimeAggregator\<close>. \<open>read\<close> uses an attribute \<open>dtypes\<close>, a
  dictionary from the name of a metric to its dtype; an object may have it or not
  (\<open>None\<close>). A date is its ordinal; \<open>strftime\<close> stands for \<^verbatim>\<open>d.strftime('%Y%m%d')\<close>.
\<close>

record aggregator =
  spacedeltas :: "(string \<times> spacedelta) list"
  prefix :: string
  dates :: "int list"
  dirname :: string
  filenames :: "(int \<times> string) list"
  dtypes :: "(string \<times> string) list option"

text \<open>\<open>os.path.join\<close> of two components, on a POSIX system.\<close>

definition path_join :: "string \<Rightarrow> string \<Rightarrow> string" where
  "path_join a b =
     (if b \<noteq> [] \<and> hd b = CHR ''/'' then b
      else if a = [] \<or> last a = CHR ''/'' then a @ b
      else a @ ''/'' @ b)"

text \<open>
  \<open>__init__\<close> sets the five attributes \<open>spacedeltas\<close>, \<open>prefix\<close>, \<open>dates\<close>, \<open>dirname\<close> and
  \<open>filenames\<close>, and no other.
\<close>

definition init ::
  "(int \<Rightarrow> string) \<Rightarrow> (string \<times> spacedelta) list \<Rightarrow> int list \<Rightarrow> string \<Rightarrow> string
     \<Rightarrow> aggregator" where
  "init strftime spacedeltas' dates' prefix' basedir =
     \<lparr>spacedeltas = spacedeltas',
      prefix = prefix',
      dates = dates',
      dirname = path_join basedir prefix',
      filenames =
        foldl (\<lambda>d date. dict_set d date
                 (path_join (path_join basedir prefix') (strftime date @ ''.hdf'')))
          [] dates',
      dtypes = None\<rparr>"

text \<open>
  \<open>df.drop(labels)\<close> removes every row whose label is among the given ones.
\<close>

definition drop_labels :: "frame \<Rightarrow> cell list list \<Rightarrow> frame" where
  "drop_labels df ls = select_rows df (map (\<lambda>l. l \<notin> set ls) (labels df))"

text \<open>
  The loop of \<open>read_date\<close> over the spaces: for each, the rows whose \<open>id\<close> is not among
  the values of the spatial index in \<open>left\<close> are dropped.
\<close>

fun restrict_to :: "frame \<Rightarrow> frame \<Rightarrow> (string \<times> spacedelta) list \<Rightarrow> error + frame" where
  "restrict_to left df [] = Inr df"
| "restrict_to left df ((space, sd) # rest) =
     (case get_column left (spatial_index sd) of
        Inl e \<Rightarrow> Inl e
      | Inr values \<Rightarrow>
          (case get_column df ''id'' of
             Inl e \<Rightarrow> Inl e
           | Inr ids \<Rightarrow>
               restrict_to left
                 (drop_labels df (masked (labels df) (map (\<lambda>c. c \<notin> set values) ids)))
                 rest))"

text \<open>
  \<open>read_date\<close>. The store maps the name of a file to the frame that \<open>read_hdf\<close> finds in
  it; a file that is not there is an \<open>IOError\<close>.
\<close>

definition read_date ::
  "(string \<rightharpoonup> frame) \<Rightarrow> aggregator \<Rightarrow> int \<Rightarrow> frame option \<Rightarrow> error + frame" where
  "read_date store self date left =
     (case (case left of
              None \<Rightarrow> Inr None
            | Some l \<Rightarrow>
                (case get_column l ''date'' of
                   Inl e \<Rightarrow> Inl (AttributeError ''date'')
                 | Inr ds \<Rightarrow> Inr (Some (select_rows l (map (\<lambda>c. c = Date date) ds))))) of
        Inl e \<Rightarrow> Inl e
      | Inr left1 \<Rightarrow>
          if (case left1 of None \<Rightarrow> False | Some l \<Rightarrow> nrows l = 0)
          then Inr \<lparr>labels = [], cols = []\<rparr>
          else
            (case map_of (filenames self) date of
               None \<Rightarrow> Inl (KeyError ''date'')
             | Some path \<Rightarrow>
                 (case store path of
                    None \<Rightarrow> Inl (IOError path)
                  | Some df \<Rightarrow>
                      (case (case left1 of
                               None \<Rightarrow> Inr df
                             | Some l \<Rightarrow> restrict_to l df (spacedeltas self)) of
                         Inl e \<Rightarrow> Inl e
                       | Inr df1 \<Rightarrow>
                           Inr (set_column df1 ''date''
                                  (replicate (nrows df1) (Date date)))))))"

text \<open>
  \<open>pd.concat(dfs, ignore_index=True)\<close>: the rows of the frames one after the other,
  relabelled from zero. The columns are those of the frames when all have the same, else
  the sorted union of them; a frame without a column has \<open>NaN\<close> there.
\<close>

definition concat_columns :: "frame list \<Rightarrow> string list" where
  "concat_columns dfs =
     (let names = map column_names dfs in
      if list_all (\<lambda>n. n = hd names) names then hd names
      else sort_by string_le (remdups (concat names)))"

definition column_or_missing :: "frame \<Rightarrow> string \<Rightarrow> cell list" where
  "column_or_missing df name =
     (case map_of (cols df) name of
        Some c \<Rightarrow> c
      | None \<Rightarrow> replicate (nrows df) (Number NaN))"

definition pd_concat :: "frame list \<Rightarrow> error + frame" where
  "pd_concat dfs =
     (if dfs = [] then Inl (ValueError (Pandas ''No objects to concatenate''))
      else Inr \<lparr>labels = map (\<lambda>i. [Number (Flt (real i))]) [0..<sum_list (map nrows dfs)],
                cols = map (\<lambda>name. (name, concat (map (\<lambda>df. column_or_missing df name) dfs)))
                         (concat_columns dfs)\<rparr>)"

text \<open>
  \<open>df.set_index(keys)\<close>: the label of a row becomes the tuple of its cells in the key
  columns, which leave the frame.
\<close>

definition set_index :: "frame \<Rightarrow> string list \<Rightarrow> error + frame" where
  "set_index df keys =
     (case collect (map (get_column df) keys) of
        Inl e \<Rightarrow> Inl e
      | Inr cs \<Rightarrow>
          Inr \<lparr>labels = map (\<lambda>i. map (\<lambda>c. c ! i) cs) [0..<nrows df],
               cols = filter (\<lambda>(n, c). n \<notin> set keys) (cols df)\<rparr>)"

text \<open>
  \<open>df.unstack(['space', 'delta'])\<close> on a frame labelled by \<open>(id, date, space, delta)\<close>.
  The result has one row per \<open>(id, date)\<close> and, for every column of the frame and every
  pair \<open>(space, delta)\<close> among the labels, the column \<open>(column, space, delta)\<close>; a row
  without that pair has \<open>NaN\<close> there. The levels of the column index are the columns of
  the frame, the spaces and the deltas. Labels that occur twice cannot be reshaped.
\<close>

record panel =
  rows :: "cell list list"
  levels :: "string list \<times> cell list \<times> cell list"
  pcols :: "((string \<times> cell \<times> cell) \<times> cell list) list"

definition unstack :: "frame \<Rightarrow> error + panel" where
  "unstack df =
     (if \<not> distinct (labels df)
      then Inl (ValueError (Pandas ''Index contains duplicate entries, cannot reshape''))
      else
        let keys = sort_keys (remdups (map (take 2) (labels df)));
            pairs = sort_keys (remdups (map (drop 2) (labels df)));
            space_level = sort_by cell_le (remdups (map (\<lambda>l. l ! 2) (labels df)));
            delta_level = sort_by cell_le (remdups (map (\<lambda>l. l ! 3) (labels df)))
        in Inr \<lparr>rows = keys,
                levels = (column_names df, space_level, delta_level),
                pcols =
                  concat
                    (map (\<lambda>(name, c).
                            map (\<lambda>p. ((name, p ! 0, p ! 1),
                                       map (\<lambda>k. case map_of (zip (labels df) c) (k @ p) of
                                                  Some v \<Rightarrow> v
                                                | None \<Rightarrow> Number NaN)
                                         keys))
                              pairs)
                       (cols df))\<rparr>)"

text \<open>
  The loop of \<open>read\<close> that sets the dtypes back: each column in turn is cast to the
  dtype of its metric. \<open>astype\<close> is the cast of numpy.
\<close>

fun restore_dtypes ::
  "(string \<Rightarrow> cell list \<Rightarrow> error + cell list) \<Rightarrow> (string \<times> string) list \<Rightarrow> panel
     \<Rightarrow> (string \<times> cell \<times> cell) list \<Rightarrow> error + panel" where
  "restore_dtypes astype dt p [] = Inr p"
| "restore_dtypes astype dt p (c # cs) =
     (case map_of (pcols p) c of
        None \<Rightarrow> Inl (KeyError (fst c))
      | Some v \<Rightarrow>
          (case map_of dt (fst c) of
             None \<Rightarrow> Inl (KeyError (fst c))
           | Some ty \<Rightarrow>
               (case astype ty v of
                  Inl e \<Rightarrow> Inl e
                | Inr v' \<Rightarrow>
                    restore_dtypes astype dt
                      (p\<lparr>pcols := map (\<lambda>(c', w). if c' = c then (c', v') else (c', w)) (pcols p)\<rparr>)
                      cs)))"

text \<open>
  \<open>read\<close>. \<open>columns\<close> is the product of the three levels. The filter that selects the
  columns with a dtype evaluates \<open>self.dtypes\<close> once for every element of \<open>columns\<close>: with
  no such attribute and a column to look at, that is an \<open>AttributeError\<close>. \<open>str\<close> is the
  text that \<open>format\<close> gives for a cell.
\<close>

definition read ::
  "(cell \<Rightarrow> string) \<Rightarrow> (string \<Rightarrow> cell list \<Rightarrow> error + cell list) \<Rightarrow> (string \<rightharpoonup> frame)
     \<Rightarrow> aggregator \<Rightarrow> frame option \<Rightarrow> bool \<Rightarrow> error + frame" where
  "read str astype store self left pivot =
     (case collect (map (\<lambda>d. read_date store self d left) (dates self)) of
        Inl e \<Rightarrow> Inl e
      | Inr dfs \<Rightarrow>
          (case pd_concat dfs of
             Inl e \<Rightarrow> Inl e
           | Inr df \<Rightarrow>
               if \<not> pivot then Inr df
               else
                 (case set_index df [''id'', ''date'', ''space'', ''delta''] of
                    Inl e \<Rightarrow> Inl e
                  | Inr df1 \<Rightarrow>
                      (case unstack df1 of
                         Inl e \<Rightarrow> Inl e
                       | Inr p \<Rightarrow>
                           let columns =
                                 (case levels p of
                                    (column_level, space_level, delta_level) \<Rightarrow>
                                      concat (map (\<lambda>c. concat (map (\<lambda>s. map (\<lambda>d. (c, s, d))
                                                                         delta_level)
                                                                  space_level))
                                                column_level))
                           in (case (if columns = [] then Inr p
                                     else
                                       case dtypes self of
                                         None \<Rightarrow> Inl (AttributeError ''dtypes'')
                                       | Some dt \<Rightarrow>
                                           restore_dtypes astype dt p
                                             (filter (\<lambda>c. fst c \<in> set (map fst dt)) columns)) of
                                 Inl e \<Rightarrow> Inl e
                               | Inr p1 \<Rightarrow>
                                   if length columns \<noteq> length (pcols p1)
                                   then Inl (ValueError (Pandas ''Length mismatch''))
                                   else
                                     Inr \<lparr>labels = rows p1,
                                          cols =
                                            zip (map (\<lambda>(column, space, delta).
                                                        column_name (prefix self) (str space)
                                                          (str delta) column)
                                                   columns)
                                              (map snd (pcols p1))\<rparr>)))))"

section \<open>Properties of the ranking metrics\<close>

subsection \<open>The cast to float32\<close>

lemma exponent32_eq:
  assumes "2 powi e \<le> \<bar>x\<bar>" and "\<bar>x\<bar> < 2 powi (e + 1)" and "- 126 \<le> e"
  shows "exponent32 x = e"
proof -
  have "(0::real) < 2 powi e" by simp
  then have pos: "0 < \<bar>x\<bar>" using assms(1) by linarith
  have a: "(2::real) powr (of_int e) = 2 powi e"
    using powr_real_of_int' [of 2 e] by simp
  have b: "(2::real) powr (of_int e + 1) = 2 powi (e + 1)"
    using powr_real_of_int' [of 2 "e + 1"] by simp
  have "\<lfloor>log 2 \<bar>x\<bar>\<rfloor> = e"
    using assms(1,2) pos floor_log_eq_powr_iff [of "\<bar>x\<bar>" 2 e] a b by simp
  then show ?thesis using assms(3) by (simp add: exponent32_def)
qed

lemma float32_eval:
  assumes "2 powi e \<le> \<bar>x\<bar>" and "\<bar>x\<bar> < 2 powi (e + 1)" and "- 126 \<le> e"
    and "round_half_even (x / 2 powi (e - 23)) = m"
    and "\<bar>of_int m * 2 powi (e - 23)\<bar> < (2::real) powi 128"
  shows "float32 (Flt x) = Flt (of_int m * 2 powi (e - 23))"
proof -
  have p: "(0::real) < 2 powi e" by simp
  have "x \<noteq> 0"
  proof
    assume "x = 0"
    then have "2 powi e \<le> (0::real)" using assms(1) by simp
    then show False using p by linarith
  qed
  then show ?thesis
    using assms(4,5) exponent32_eq [OF assms(1,2,3)]
    by (simp add: float32_def Let_def)
qed

lemma round_half_even_of_int: "round_half_even (of_int m) = m"
  by (simp add: round_half_even_def)

lemma isnan_float32: "isnan (float32 v) = isnan v"
  by (cases v) (simp_all add: float32_def Let_def)

lemma float32_09: "float32 (Flt (9/10)) = Flt (7549747 / 8388608)"
  using float32_eval [of "- 1" "9/10" 15099494] by (simp add: round_half_even_def)

lemma float32_01: "float32 (Flt (1/10)) = Flt (13421773 / 134217728)"
  using float32_eval [of "- 4" "1/10" 13421773] by (simp add: round_half_even_def)

lemma float32_05: "float32 (Flt (1/2)) = Flt (1/2)"
  using float32_eval [of "- 1" "1/2" 8388608] by (simp add: round_half_even_def)

lemma float32_04: "float32 (Flt (2/5)) = Flt (13421773 / 33554432)"
  using float32_eval [of "- 2" "2/5" 13421773] by (simp add: round_half_even_def)

lemma float32_08: "float32 (Flt (4/5)) = Flt (13421773 / 16777216)"
  using float32_eval [of "- 1" "4/5" 13421773] by (simp add: round_half_even_def)

lemma float32_1: "float32 (Flt 1) = Flt 1"
  using float32_eval [of 0 1 8388608] by (simp add: round_half_even_def)

lemma float32_1eps: "float32 (Flt (1 + 1 / 10 ^ 9)) = Flt 1"
  using float32_eval [of 0 "1 + 1 / 10 ^ 9" 8388608] by (simp add: round_half_even_def)

lemma float32_0: "float32 (Flt 0) = Flt 0"
  by (simp add: float32_def)

lemma float32_NaN: "float32 NaN = NaN"
  by (simp add: float32_def)

lemma float32_of_nat:
  assumes "n \<le> 2 ^ 24"
  shows "float32 (Flt (real n)) = Flt (real n)"
proof (cases "n = 0")
  case True
  then show ?thesis by (simp add: float32_0)
next
  case False
  then have "1 \<le> n" by simp
  then obtain e where e: "2 ^ e \<le> n" "n < 2 ^ (e + 1)"
    using ex_power_ivl1 [of 2 n] by auto
  have "(2::nat) ^ e \<le> 2 ^ 24" using e(1) assms by linarith
  then have e24: "e \<le> 24"
    using power_increasing_iff [of "2::nat" e 24] by simp
  have "real (2 ^ e) \<le> real n" using e(1) by (rule of_nat_mono)
  then have lo: "2 powi (int e) \<le> \<bar>real n\<bar>" by simp
  have "real n < real (2 ^ (e + 1))" using e(2) by (simp only: of_nat_less_iff)
  then have "real n < 2 ^ (e + 1)" by simp
  then have hi: "\<bar>real n\<bar> < 2 powi (int e + 1)"
    using power_int_of_nat [of "2::real" "e + 1"] by (simp add: add.commute)
  show ?thesis
  proof (cases "e = 24")
    case True
    then have "n = 2 ^ 24" using e(1) assms by simp
    then show ?thesis
      using float32_eval [of 24 "2 ^ 24" 8388608] by (simp add: round_half_even_def)
  next
    case False
    then have e23: "e \<le> 23" using e24 by simp
    have "int e - 23 = - int (23 - e)" using e23 by simp
    then have "(2::real) powi (int e - 23) = inverse (2 powi (int (23 - e)))"
      by (simp only: power_int_minus)
    then have p: "(2::real) powi (int e - 23) = 1 / 2 ^ (23 - e)"
      by (simp add: divide_inverse)
    have q: "real n / 2 powi (int e - 23) = of_int (int (n * 2 ^ (23 - e)))"
      by (simp add: p)
    have r: "round_half_even (real n / 2 powi (int e - 23)) = int (n * 2 ^ (23 - e))"
      unfolding q by (rule round_half_even_of_int)
    have v: "of_int (int (n * 2 ^ (23 - e))) * 2 powi (int e - 23) = real n"
      by (simp add: p)
    have "real n \<le> real (2 ^ 24)" using assms by (rule of_nat_mono)
    then have b: "\<bar>of_int (int (n * 2 ^ (23 - e))) * 2 powi (int e - 23)\<bar> < (2::real) powi 128"
      unfolding v by simp
    show ?thesis
      using float32_eval [OF lo hi _ r b] unfolding v by simp
  qed
qed

lemma sums32_binary:
  "sums32 xs s \<Longrightarrow> set xs \<subseteq> {Flt 0, Flt 1} \<Longrightarrow> length xs \<le> 2 ^ 24 \<Longrightarrow>
   s = Flt (real (length (filter (\<lambda>v. v = Flt 1) xs)))"
proof (induction rule: sums32.induct)
  case sums32_empty
  then show ?case by simp
next
  case (sums32_single v)
  then show ?case by auto
next
  case (sums32_add xs a ys b zs)
  let ?P = "\<lambda>v. v = Flt 1"
  from sums32_add.hyps(3) have "set_mset (mset zs) = set_mset (mset xs + mset ys)" by simp
  then have sets: "set zs = set xs \<union> set ys" by simp
  from sums32_add.hyps(3) have "size (mset zs) = size (mset xs + mset ys)" by simp
  then have len: "length zs = length xs + length ys" by simp
  from sums32_add.hyps(3)
  have "size (filter_mset ?P (mset zs)) = size (filter_mset ?P (mset xs + mset ys))" by simp
  then have "size (mset (filter ?P zs)) = size (mset (filter ?P xs)) + size (mset (filter ?P ys))"
    by (simp only: mset_filter filter_union_mset size_union)
  then have cnt: "length (filter ?P zs) = length (filter ?P xs) + length (filter ?P ys)"
    by (simp only: size_mset)
  have a: "a = Flt (real (length (filter ?P xs)))"
    using sums32_add.IH(1) sums32_add.prems sets len by simp
  have b: "b = Flt (real (length (filter ?P ys)))"
    using sums32_add.IH(2) sums32_add.prems sets len by simp
  have "length (filter ?P zs) \<le> length zs" by (rule length_filter_le)
  then have "length (filter ?P zs) \<le> 2 ^ 24" using sums32_add.prems(2) by linarith
  then have "float32 (Flt (real (length (filter ?P zs)))) = Flt (real (length (filter ?P zs)))"
    by (rule float32_of_nat)
  then show ?case by (simp add: a b cnt)
qed

lemma is_sum32_binary:
  "is_sum32 array_sum \<Longrightarrow> set xs \<subseteq> {Flt 0, Flt 1} \<Longrightarrow> length xs \<le> 2 ^ 24 \<Longrightarrow>
   array_sum xs = Flt (real (length (filter (\<lambda>v. v = Flt 1) xs)))"
  using sums32_binary [of xs "array_sum xs"] by (simp add: is_sum32_def)

lemma sums32_foldl: "sums32 xs (foldl (\<lambda>a b. float32 (vadd a b)) (Flt 0) xs)"
proof (induction xs rule: rev_induct)
  case Nil
  show ?case by (simp add: sums32_empty)
next
  case (snoc x xs)
  have "sums32 (xs @ [x])
      (float32 (vadd (foldl (\<lambda>a b. float32 (vadd a b)) (Flt 0) xs) x))"
    using snoc.IH sums32_single [of x] by (rule sums32_add) simp
  then show ?case by simp
qed

lemma is_sum32_sum32: "is_sum32 sum32"
  by (simp add: is_sum32_def sum32_def sums32_foldl)

lemma to_float_binary: "set xs \<subseteq> {Flt 0, Flt 1, NaN} \<Longrightarrow> to_float xs = xs"
  unfolding to_float_def
  by (induction xs) (auto simp: float32_0 float32_1 float32_NaN)

lemma length_to_float: "length (to_float xs) = length xs"
  by (simp add: to_float_def)

lemma filter_isnan_to_float:
  "length (filter (\<lambda>v. \<not> isnan v) (to_float xs)) = length (filter (\<lambda>v. \<not> isnan v) xs)"
  by (induction xs) (simp_all add: to_float_def isnan_float32)

lemma is_argsort_stable: "is_argsort stable_argsort"
  by (auto simp: is_argsort_def ascending_def stable_argsort_def)

lemma length_argsort: "is_argsort argsort \<Longrightarrow> length (argsort ys) = length ys"
proof -
  assume "is_argsort argsort"
  then have "distinct (argsort ys)" and "set (argsort ys) = {..<length ys}"
    by (simp_all add: is_argsort_def ascending_def)
  then show ?thesis using distinct_card [of "argsort ys"] by simp
qed

lemma set_argsort: "is_argsort argsort \<Longrightarrow> set (argsort ys) = {..<length ys}"
  by (simp add: is_argsort_def ascending_def)

lemma distinct_argsort: "is_argsort argsort \<Longrightarrow> distinct (argsort ys)"
  by (simp add: is_argsort_def ascending_def)

lemma sorted_argsort:
  "is_argsort argsort \<Longrightarrow> sorted (map (\<lambda>i. rank_key (ys ! i)) (argsort ys))"
  by (simp add: is_argsort_def ascending_def)

lemma ascending_unique:
  assumes "ascending ys r" and "distinct (map rank_key ys)"
  shows "r = stable_argsort ys"
proof -
  let ?f = "\<lambda>i. rank_key (ys ! i)"
  let ?s = "stable_argsort ys"
  have inj: "inj_on ?f {..<length ys}"
  proof (rule inj_onI)
    fix i j assume "i \<in> {..<length ys}" "j \<in> {..<length ys}" "?f i = ?f j"
    then show "i = j"
      using assms(2) nth_eq_iff_index_eq [of "map rank_key ys" i j] by simp
  qed
  have s: "ascending ys ?s"
    using is_argsort_stable by (simp add: is_argsort_def)
  have sr: "set r = {..<length ys}" and ss: "set ?s = {..<length ys}"
    using assms(1) s by (simp_all add: ascending_def)
  have "distinct (map ?f r)" and "distinct (map ?f ?s)"
    using assms(1) s inj by (simp_all add: ascending_def distinct_map)
  moreover have "sorted (map ?f r)" and "sorted (map ?f ?s)"
    using assms(1) s by (simp_all add: ascending_def)
  moreover have "set (map ?f r) = set (map ?f ?s)"
    using sr ss by simp
  ultimately have "map ?f r = map ?f ?s"
    by (rule_tac sorted_distinct_set_unique)
  moreover have "inj_on ?f (set r \<union> set ?s)" using inj sr ss by simp
  ultimately show ?thesis by (simp only: inj_on_map_eq_map)
qed

subsection \<open>Ranking and selection\<close>

lemma vmul_one: "vmul n (Flt 1) = n"
  by (cases n) (simp_all add: signed_inf_def)

lemma drop_argsort_highest:
  assumes "is_argsort argsort" and "i \<in> set (drop m (argsort ys))" and "j < length ys"
    and "j \<notin> set (drop m (argsort ys))"
  shows "rank_key (ys ! j) \<le> rank_key (ys ! i)"
proof -
  let ?f = "\<lambda>i. rank_key (ys ! i)"
  have "j \<in> set (argsort ys)" using assms(1,3) by (simp add: set_argsort)
  moreover have "set (argsort ys) = set (take m (argsort ys)) \<union> set (drop m (argsort ys))"
    by (metis append_take_drop_id set_append)
  ultimately have j: "j \<in> set (take m (argsort ys))" using assms(4) by auto
  have "sorted (map ?f (take m (argsort ys)) @ map ?f (drop m (argsort ys)))"
    by (metis sorted_argsort [OF assms(1)] append_take_drop_id map_append)
  then have "\<forall>x\<in>set (take m (argsort ys)). \<forall>y\<in>set (drop m (argsort ys)). ?f x \<le> ?f y"
    by (auto simp: sorted_append)
  then show ?thesis using j assms(2) by blast
qed

lemma slice_from_last: "0 < k \<Longrightarrow> slice_from xs (- k) = drop (length xs - nat k) xs"
  by (auto simp: slice_from_def max_def intro!: arg_cong2 [where f = drop])

lemma masked_self: "masked xs (map P xs) = filter P xs"
  by (induction xs) (auto simp: masked_def)

lemma masked_zip: "length xs = length ys \<Longrightarrow>
  masked ys (map P xs) = map snd (filter (\<lambda>p. P (fst p)) (zip xs ys))"
  by (induction xs ys rule: list_induct2) (auto simp: masked_def)

lemma count_true_map: "count_true (map P xs) = length (filter P xs)"
  by (induction xs) (auto simp: count_true_def)

lemma masked_map_comp: "masked (map f idx) (map (P \<circ> f) idx) = filter P (map f idx)"
  using masked_self [of "map f idx" P] by simp

lemma count_true_map_comp: "count_true (map (P \<circ> f) idx) = length (filter P (map f idx))"
  using count_true_map [of P "map f idx"] by simp

lemma labeled_true:
  "length xs = length ys \<Longrightarrow>
   masked xs (map P xs) = map fst (filter (\<lambda>p. P (fst p)) (zip xs ys))"
  by (induction xs ys rule: list_induct2) (auto simp: masked_def)

lemma labeled_count:
  "length xs = length ys \<Longrightarrow>
   length (filter P xs) = length (filter (\<lambda>p. P (fst p)) (zip xs ys))"
  by (induction xs ys rule: list_induct2) auto

lemma sum32_positives:
  assumes "is_sum32 array_sum" and "set lt \<subseteq> {Flt 0, Flt 1}"
    and "set idx \<subseteq> {..<length lt}" and "length idx \<le> 2 ^ 24"
  shows "array_sum (map ((!) lt) idx)
    = Flt (real (length (filter (\<lambda>i. lt ! i = Flt 1) idx)))"
proof -
  have "\<forall>i\<in>set idx. lt ! i \<in> set lt"
    using assms(3) by auto
  then have "set (map ((!) lt) idx) \<subseteq> {Flt 0, Flt 1}"
    using assms(2) by auto
  moreover have "length (map ((!) lt) idx) \<le> 2 ^ 24" using assms(4) by simp
  ultimately have "array_sum (map ((!) lt) idx)
      = Flt (real (length (filter (\<lambda>v. v = Flt 1) (map ((!) lt) idx))))"
    by (rule is_sum32_binary [OF assms(1)])
  also have "length (filter (\<lambda>v. v = Flt 1) (map ((!) lt) idx))
      = length (filter (\<lambda>i. lt ! i = Flt 1) idx)"
    by (simp add: filter_map comp_def)
  finally show ?thesis .
qed

subsection \<open>The two branches of \<open>top_k\<close>\<close>

lemma top_k_extrapolate:
  assumes "is_argsort argsort" and "length y_true = length y_score" and "0 < k"
  shows "top_k argsort array_sum y_true y_score k True =
     Inr (array_sum (filter (\<lambda>v. \<not> isnan v)
                  (map ((!) (to_float y_true))
                     (drop (length y_score - nat k) (argsort (to_float y_score))))),
          int (length (filter (\<lambda>v. \<not> isnan v)
                  (map ((!) (to_float y_true))
                     (drop (length y_score - nat k) (argsort (to_float y_score)))))))"
  using assms(2,3)
  by (simp add: top_k_def Let_def slice_from_last length_argsort [OF assms(1)] length_to_float
      masked_map_comp count_true_map_comp take_idx_def)

lemma precision_at_k_of_top_k:
  "top_k argsort array_sum y_true y_score k True = Inr (n, d) \<Longrightarrow> k \<noteq> 0 \<Longrightarrow>
   precision_at_k argsort array_sum y_true y_score k True True =
     Inr (With_bounds (if d \<noteq> 0 then vdiv n (Flt (of_int d)) else NaN) d
           (vdiv n (Flt (of_int k)),
            vdiv (vsub (vadd n (Flt (of_int k))) (Flt (of_int d))) (Flt (of_int k))))"
  by (simp add: precision_at_k_def vmul_one)

lemma top_k_labeled_raw:
  assumes "is_argsort argsort" and "length y_true = length y_score" and "0 < k"
  shows "top_k argsort array_sum y_true y_score k False =
    (if int (count_true (map (\<lambda>v. \<not> isnan v) (to_float y_true))) < k
     then Inl (ValueError (Cannot_calculate k
            (count_true (map (\<lambda>v. \<not> isnan v) (to_float y_true)))))
     else Inr (array_sum (map ((!) (masked (to_float y_true)
                                  (map (\<lambda>v. \<not> isnan v) (to_float y_true))))
                 (drop (length (masked (to_float y_score)
                                  (map (\<lambda>v. \<not> isnan v) (to_float y_true))) - nat k)
                    (argsort (masked (to_float y_score)
                                (map (\<lambda>v. \<not> isnan v) (to_float y_true)))))), k))"
  using assms(2,3)
  by (simp add: top_k_def Let_def slice_from_last length_argsort [OF assms(1)] take_idx_def)

lemma top_k_labeled:
  assumes "is_argsort argsort" and "length y_true = length y_score" and "0 < k"
  shows "top_k argsort array_sum y_true y_score k False =
    (if int (length (filter (\<lambda>p. \<not> isnan (fst p)) (zip (to_float y_true) (to_float y_score)))) < k
     then Inl (ValueError (Cannot_calculate k
            (length (filter (\<lambda>p. \<not> isnan (fst p)) (zip (to_float y_true) (to_float y_score))))))
     else Inr (array_sum (map ((!) (map fst (filter (\<lambda>p. \<not> isnan (fst p))
                                   (zip (to_float y_true) (to_float y_score)))))
                 (drop (length (map snd (filter (\<lambda>p. \<not> isnan (fst p))
                                   (zip (to_float y_true) (to_float y_score)))) - nat k)
                    (argsort (map snd (filter (\<lambda>p. \<not> isnan (fst p))
                                   (zip (to_float y_true) (to_float y_score))))))), k))"
proof -
  have l: "length (to_float y_true) = length (to_float y_score)"
    using assms(2) by (simp add: length_to_float)
  show ?thesis
    unfolding top_k_labeled_raw [OF assms] count_true_map
      labeled_true [OF l, of "\<lambda>v. \<not> isnan v"]
      masked_zip [OF l, of "\<lambda>v. \<not> isnan v"]
      labeled_count [OF l, of "\<lambda>v. \<not> isnan v"]
    by (rule refl)
qed

lemma precision_of_top_k_labeled:
  "top_k argsort array_sum y_true y_score k False = Inr (n, k) \<Longrightarrow> k \<noteq> 0 \<Longrightarrow>
   precision_at_k argsort array_sum y_true y_score k False rb = Inr (Precision (vdiv n (Flt (of_int k))))"
  by (simp add: precision_at_k_def vmul_one)

lemma precision_of_top_k_error:
  "top_k argsort array_sum y_true y_score k ex = Inl e \<Longrightarrow>
   precision_at_k argsort array_sum y_true y_score k ex rb = Inl e"
  by (simp add: precision_at_k_def)

lemma to_float_example_labels: "to_float [Flt 1, Flt 0, Flt 1, NaN] = [Flt 1, Flt 0, Flt 1, NaN]"
  by (rule to_float_binary) simp

lemma to_float_example_scores:
  "to_float [Flt (9/10), Flt (1/10), Flt (1/2), Flt (2/5)]
     = [Flt (7549747 / 8388608), Flt (13421773 / 134217728), Flt (1/2),
        Flt (13421773 / 33554432)]"
  by (simp add: to_float_def float32_09 float32_01 float32_05 float32_04)

lemma argsort_example_labeled:
  assumes "is_argsort argsort"
  shows "argsort [Flt (7549747 / 8388608), Flt (13421773 / 134217728), Flt (1/2)] = [1, 2, 0]"
proof -
  let ?ys = "[Flt (7549747 / 8388608), Flt (13421773 / 134217728), Flt (1/2)]"
  have "ascending ?ys (argsort ?ys)" using assms by (simp add: is_argsort_def)
  moreover have "distinct (map rank_key ?ys)" by simp
  ultimately have "argsort ?ys = stable_argsort ?ys" by (rule ascending_unique)
  then show ?thesis by (simp add: stable_argsort_def upt_conv_Cons)
qed

lemma argsort_example_all:
  assumes "is_argsort argsort"
  shows "argsort [Flt (7549747 / 8388608), Flt (13421773 / 134217728), Flt (1/2),
                  Flt (13421773 / 33554432)] = [1, 3, 2, 0]"
proof -
  let ?ys = "[Flt (7549747 / 8388608), Flt (13421773 / 134217728), Flt (1/2),
              Flt (13421773 / 33554432)]"
  have "ascending ?ys (argsort ?ys)" using assms by (simp add: is_argsort_def)
  moreover have "distinct (map rank_key ?ys)" by simp
  ultimately have "argsort ?ys = stable_argsort ?ys" by (rule ascending_unique)
  then show ?thesis by (simp add: stable_argsort_def upt_conv_Cons)
qed

lemma sum32_ones: "is_sum32 array_sum \<Longrightarrow> array_sum [Flt 1, Flt 1] = Flt 2"
  using is_sum32_binary [of array_sum "[Flt 1, Flt 1]"] by simp

lemma sum32_zero_one: "is_sum32 array_sum \<Longrightarrow> array_sum [Flt 0, Flt 1] = Flt 1"
  using is_sum32_binary [of array_sum "[Flt 0, Flt 1]"] by simp

lemma to_float_close_scores:
  "to_float [Flt (1 + 1 / 10 ^ 9), Flt 1] = to_float [Flt 1, Flt (1 + 1 / 10 ^ 9)]"
  using float32_1eps by (simp add: to_float_def float32_1)

subsection \<open>The claims\<close>

text \<open>
  C10: when the labels and the scores differ in length, \<open>top_k\<close>, and so
  \<open>precision_at_k\<close>, raises the \<open>ValueError\<close> that reports the two lengths, whatever
  \<open>k\<close> and \<open>extrapolate\<close> are; nothing is cast, ranked or added before, so this holds
  for every \<open>argsort\<close> and every sum.
\<close>

theorem top_k_length_mismatch:
  "length y_true \<noteq> length y_score \<Longrightarrow>
     top_k argsort array_sum y_true y_score k extrapolate
       = Inl (ValueError (Lengths (length y_true) (length y_score))) \<and>
     precision_at_k argsort array_sum y_true y_score k extrapolate return_bounds
       = Inl (ValueError (Lengths (length y_true) (length y_score)))"
  by (simp add: top_k_def precision_at_k_def)

theorem top_k_length_mismatch_witness:
  "length [Flt 1, Flt 0] \<noteq> length [Flt (1/2)] \<and>
   top_k stable_argsort sum32 [Flt 1, Flt 0] [Flt (1/2)] 1 False = Inl (ValueError (Lengths 2 1)) \<and>
   precision_at_k stable_argsort sum32 [Flt 1, Flt 0] [Flt (1/2)] 1 False True
     = Inl (ValueError (Lengths 2 1))"
  using top_k_length_mismatch [of "[Flt 1, Flt 0]" "[Flt (1/2)]" stable_argsort sum32 1 False True]
  by simp

text \<open>
  C7: on the labels \<open>[1, 0, 1, nan]\<close> and the scores \<open>[0.9, 0.1, 0.5, 0.4]\<close> with
  \<open>k = 2\<close>, \<open>precision_at_k\<close> returns \<open>1.0\<close> without extrapolation, and with
  extrapolation the precision \<open>1.0\<close>, two labeled examples and both bounds \<open>1.0\<close>. The
  four scores are cast to four different float32 numbers, in the same order, and the sum
  of the two labels is exact, so the result is the same for every \<open>argsort\<close> and every
  sum.
\<close>

theorem precision_at_k_example:
  "is_argsort argsort \<Longrightarrow> is_sum32 array_sum \<Longrightarrow>
   precision_at_k argsort array_sum [Flt 1, Flt 0, Flt 1, NaN]
      [Flt (9/10), Flt (1/10), Flt (1/2), Flt (2/5)] 2 False True = Inr (Precision (Flt 1)) \<and>
   precision_at_k argsort array_sum [Flt 1, Flt 0, Flt 1, NaN]
      [Flt (9/10), Flt (1/10), Flt (1/2), Flt (2/5)] 2 True True
        = Inr (With_bounds (Flt 1) 2 (Flt 1, Flt 1))"
  by (simp add: precision_at_k_def top_k_def to_float_example_labels to_float_example_scores
      argsort_example_labeled argsort_example_all masked_def count_true_def slice_from_def
      take_idx_def sum32_ones vsub_def)

theorem precision_at_k_example_witness:
  "is_argsort stable_argsort \<and> is_sum32 sum32 \<and>
   precision_at_k stable_argsort sum32 [Flt 1, Flt 0, Flt 1, NaN]
      [Flt (9/10), Flt (1/10), Flt (1/2), Flt (2/5)] 2 False True = Inr (Precision (Flt 1)) \<and>
   precision_at_k stable_argsort sum32 [Flt 1, Flt 0, Flt 1, NaN]
      [Flt (9/10), Flt (1/10), Flt (1/2), Flt (2/5)] 2 True True
        = Inr (With_bounds (Flt 1) 2 (Flt 1, Flt 1))"
  using precision_at_k_example [OF is_argsort_stable is_sum32_sum32] is_argsort_stable
    is_sum32_sum32
  by simp

text \<open>
  C6, as the code has it: with equal lengths, \<open>k > 0\<close> and no extrapolation,
  \<open>precision_at_k\<close> keeps the labeled examples only, as many as the labels that are not
  \<open>NaN\<close>. It raises the \<open>ValueError\<close> "cannot calculate precision" exactly when \<open>k\<close>
  exceeds their number. Otherwise it returns the sum, a float32, of the labels of \<open>k\<close>
  distinct labeled examples, divided by \<open>k\<close>; they are the last \<open>k\<close> of the ascending order
  of the scores cast to float32, so none of them has a lower float32 score than a labeled
  example left out. For labels in \<open>{0, 1}\<close> and \<open>k\<close> up to \<open>2 ^ 24\<close> that is the fraction of
  positives among them.
\<close>

theorem precision_at_k_labeled:
  assumes "is_argsort argsort" and "is_sum32 array_sum"
    and "length y_true = length y_score" and "0 < k"
  shows "let pairs = filter (\<lambda>p. \<not> isnan (fst p)) (zip (to_float y_true) (to_float y_score));
             lt = map fst pairs;
             ls = map snd pairs;
             topk = drop (length ls - nat k) (argsort ls)
         in length pairs = length (filter (\<lambda>v. \<not> isnan v) y_true) \<and>
            (if int (length pairs) < k
             then precision_at_k argsort array_sum y_true y_score k False rb
                    = Inl (ValueError (Cannot_calculate k (length pairs)))
             else precision_at_k argsort array_sum y_true y_score k False rb
                    = Inr (Precision (vdiv (array_sum (map ((!) lt) topk)) (Flt (of_int k)))) \<and>
                  length topk = nat k \<and> distinct topk \<and> set topk \<subseteq> {..<length ls} \<and>
                  (\<forall>i\<in>set topk. \<forall>j<length ls. j \<notin> set topk \<longrightarrow>
                      rank_key (ls ! j) \<le> rank_key (ls ! i)) \<and>
                  (set y_true \<subseteq> {Flt 0, Flt 1, NaN} \<and> k \<le> 2 ^ 24 \<longrightarrow>
                     precision_at_k argsort array_sum y_true y_score k False rb
                       = Inr (Precision (Flt (real (length (filter (\<lambda>i. lt ! i = Flt 1) topk))
                                              / of_int k)))))"
proof -
  define pairs where
    "pairs = filter (\<lambda>p. \<not> isnan (fst p)) (zip (to_float y_true) (to_float y_score))"
  define lt where "lt = map fst pairs"
  define ls where "ls = map snd pairs"
  define topk where "topk = drop (length ls - nat k) (argsort ls)"
  have k0: "k \<noteq> 0" using assms(4) by simp
  have l: "length (to_float y_true) = length (to_float y_score)"
    using assms(3) by (simp add: length_to_float)
  have cnt: "length pairs = length (filter (\<lambda>v. \<not> isnan v) y_true)"
    unfolding pairs_def
    using labeled_count [OF l, of "\<lambda>v. \<not> isnan v"] filter_isnan_to_float [of y_true] by simp
  have tk: "top_k argsort array_sum y_true y_score k False =
      (if int (length pairs) < k then Inl (ValueError (Cannot_calculate k (length pairs)))
       else Inr (array_sum (map ((!) lt) topk), k))"
    unfolding topk_def ls_def lt_def pairs_def by (rule top_k_labeled [OF assms(1,3,4)])
  have err: "precision_at_k argsort array_sum y_true y_score k False rb
      = Inl (ValueError (Cannot_calculate k (length pairs)))" if "int (length pairs) < k"
    using tk that by (simp add: precision_of_top_k_error)
  have ok: "precision_at_k argsort array_sum y_true y_score k False rb
      = Inr (Precision (vdiv (array_sum (map ((!) lt) topk)) (Flt (of_int k))))"
    if "\<not> int (length pairs) < k"
    using tk that k0 by (simp add: precision_of_top_k_labeled)
  have len_ls: "length ls = length pairs" and len_lt: "length lt = length pairs"
    by (simp_all add: ls_def lt_def)
  have len: "length topk = nat k" if "\<not> int (length pairs) < k"
    using that assms(4) by (simp add: topk_def length_argsort [OF assms(1)] len_ls)
  have dist: "distinct topk"
    by (simp add: topk_def distinct_argsort [OF assms(1)])
  have sub: "set topk \<subseteq> {..<length ls}"
    using set_drop_subset [of "length ls - nat k" "argsort ls"]
    by (simp add: topk_def set_argsort [OF assms(1)])
  have high: "\<forall>i\<in>set topk. \<forall>j<length ls. j \<notin> set topk \<longrightarrow>
      rank_key (ls ! j) \<le> rank_key (ls ! i)"
    unfolding topk_def using drop_argsort_highest [OF assms(1)] by blast
  have frac: "precision_at_k argsort array_sum y_true y_score k False rb
      = Inr (Precision (Flt (real (length (filter (\<lambda>i. lt ! i = Flt 1) topk)) / of_int k)))"
    if nk: "\<not> int (length pairs) < k" and bin: "set y_true \<subseteq> {Flt 0, Flt 1, NaN}"
      and k24: "k \<le> 2 ^ 24"
  proof -
    have same: "to_float y_true = y_true" using bin by (rule to_float_binary)
    have "set lt \<subseteq> {Flt 0, Flt 1}"
    proof
      fix v assume "v \<in> set lt"
      then obtain s where "(v, s) \<in> set pairs" by (auto simp: lt_def)
      then have "\<not> isnan v" and "v \<in> set y_true"
        by (auto simp: pairs_def same dest: set_zip_leftD)
      then show "v \<in> {Flt 0, Flt 1}" using bin by auto
    qed
    moreover have "set topk \<subseteq> {..<length lt}" using sub by (simp add: len_ls len_lt)
    moreover have "length topk \<le> 2 ^ 24" using len [OF nk] k24 by simp
    ultimately have "array_sum (map ((!) lt) topk)
        = Flt (real (length (filter (\<lambda>i. lt ! i = Flt 1) topk)))"
      by (rule sum32_positives [OF assms(2)])
    then show ?thesis using ok [OF nk] k0 by simp
  qed
  have "length pairs = length (filter (\<lambda>v. \<not> isnan v) y_true) \<and>
        (if int (length pairs) < k
             then precision_at_k argsort array_sum y_true y_score k False rb
                    = Inl (ValueError (Cannot_calculate k (length pairs)))
             else precision_at_k argsort array_sum y_true y_score k False rb
                    = Inr (Precision (vdiv (array_sum (map ((!) lt) topk)) (Flt (of_int k)))) \<and>
                  length topk = nat k \<and> distinct topk \<and> set topk \<subseteq> {..<length ls} \<and>
                  (\<forall>i\<in>set topk. \<forall>j<length ls. j \<notin> set topk \<longrightarrow>
                      rank_key (ls ! j) \<le> rank_key (ls ! i)) \<and>
                  (set y_true \<subseteq> {Flt 0, Flt 1, NaN} \<and> k \<le> 2 ^ 24 \<longrightarrow>
                     precision_at_k argsort array_sum y_true y_score k False rb
                       = Inr (Precision (Flt (real (length (filter (\<lambda>i. lt ! i = Flt 1) topk))
                                              / of_int k)))))"
    using err ok len dist sub high frac cnt by (cases "int (length pairs) < k") simp_all
  then show ?thesis
    unfolding Let_def topk_def ls_def lt_def pairs_def .
qed

theorem precision_at_k_labeled_witness:
  "is_argsort stable_argsort \<and> is_sum32 sum32 \<and>
   length [Flt 1, Flt 0, Flt 1, NaN] = length [Flt (9/10), Flt (4/5), Flt (1/2), Flt (2/5)] \<and>
   (0::int) < 2 \<and>
   precision_at_k stable_argsort sum32 [Flt 1, Flt 0, Flt 1, NaN]
       [Flt (9/10), Flt (4/5), Flt (1/2), Flt (2/5)] 2 False True
     = Inr (Precision (Flt (1/2))) \<and>
   precision_at_k stable_argsort sum32 [Flt 1, Flt 0, Flt 1, NaN]
       [Flt (9/10), Flt (4/5), Flt (1/2), Flt (2/5)] 4 False True
     = Inl (ValueError (Cannot_calculate 4 3))"
proof -
  have s: "to_float [Flt (9/10), Flt (4/5), Flt (1/2), Flt (2/5)]
      = [Flt (7549747 / 8388608), Flt (13421773 / 16777216), Flt (1/2),
         Flt (13421773 / 33554432)]"
    by (simp add: to_float_def float32_09 float32_08 float32_05 float32_04)
  have a: "stable_argsort
      [Flt (7549747 / 8388608), Flt (13421773 / 16777216), Flt (1/2)] = [2, 1, 0]"
    by (simp add: stable_argsort_def upt_conv_Cons)
  have l: "length [Flt 1, Flt 0, Flt 1, NaN]
      = length [Flt (9/10), Flt (4/5), Flt (1/2), Flt (2/5)]"
    by simp
  show ?thesis
    using precision_at_k_labeled [OF is_argsort_stable is_sum32_sum32 l, of 2 True]
      precision_at_k_labeled [OF is_argsort_stable is_sum32_sum32 l, of 4 True]
      is_argsort_stable is_sum32_sum32
    by (simp add: to_float_example_labels s a Let_def sum32_zero_one)
qed

text \<open>
  The claim orders the examples by their scores; the code orders them by the scores cast
  to float32. With the labels \<open>[1, 0]\<close> and \<open>k = 1\<close>, the scores \<open>[1 + 10\<^sup>-\<^sup>9, 1]\<close> put the
  positive example first and the scores \<open>[1, 1 + 10\<^sup>-\<^sup>9]\<close> the negative one, so that the
  fraction of positives among the highest-scoring example is \<open>1\<close> for the former and \<open>0\<close>
  for the latter. Both score lists are cast to \<open>[1, 1]\<close>, and \<open>precision_at_k\<close> returns
  the same on both, whatever \<open>argsort\<close> and the sum do.
\<close>

theorem precision_at_k_labeled_close_scores:
  "\<forall>argsort array_sum rb.
     precision_at_k argsort array_sum [Flt 1, Flt 0] [Flt (1 + 1 / 10 ^ 9), Flt 1] 1 False rb
       = precision_at_k argsort array_sum [Flt 1, Flt 0] [Flt 1, Flt (1 + 1 / 10 ^ 9)] 1 False rb"
  using to_float_close_scores by (simp add: precision_at_k_def top_k_def)

text \<open>
  C8, as the code has it: with \<open>extrapolate\<close> and \<open>k > 0\<close>, \<open>precision_at_k\<close> returns the
  bounds \<open>(n / k, (n + k - d) / k)\<close>, where \<open>n\<close> is the sum, a float32, of the labels that are
  present among the top \<open>k\<close> positions and \<open>d\<close> is the number of those labels. The top
  positions are the last \<open>k\<close> of the ascending order of the scores cast to float32 (all
  positions when there are fewer than \<open>k\<close>), so no position outside has a higher float32
  score than one inside. For labels in \<open>{0, 1}\<close> and \<open>k\<close> up to \<open>2 ^ 23\<close>, \<open>n\<close> is the
  number of positives among them. With \<open>k = 0\<close> both bounds are \<open>NaN\<close>.
\<close>

theorem precision_at_k_extrapolate_bounds:
  assumes "is_argsort argsort" and "is_sum32 array_sum"
    and "length y_true = length y_score"
  shows "(0 < k \<longrightarrow>
      (let topk = drop (length y_score - nat k) (argsort (to_float y_score));
           lab = filter (\<lambda>v. \<not> isnan v) (map ((!) (to_float y_true)) topk);
           n = array_sum lab;
           d = int (length lab);
           p = real (length (filter (\<lambda>i. y_true ! i = Flt 1) topk))
       in precision_at_k argsort array_sum y_true y_score k True True =
            Inr (With_bounds (if d \<noteq> 0 then vdiv n (Flt (of_int d)) else NaN) d
                  (vdiv n (Flt (of_int k)),
                   vdiv (vsub (vadd n (Flt (of_int k))) (Flt (of_int d))) (Flt (of_int k)))) \<and>
          length topk = min (nat k) (length y_score) \<and> distinct topk \<and>
          set topk \<subseteq> {..<length y_score} \<and>
          (\<forall>i\<in>set topk. \<forall>j<length y_score. j \<notin> set topk \<longrightarrow>
              rank_key (to_float y_score ! j) \<le> rank_key (to_float y_score ! i)) \<and>
          (set y_true \<subseteq> {Flt 0, Flt 1, NaN} \<and> k \<le> 2 ^ 23 \<longrightarrow>
             precision_at_k argsort array_sum y_true y_score k True True =
               Inr (With_bounds (if d \<noteq> 0 then Flt (p / of_int d) else NaN) d
                     (Flt (p / of_int k), Flt ((p + of_int k - of_int d) / of_int k)))))) \<and>
    precision_at_k argsort array_sum y_true y_score 0 True True = Inr (With_bounds NaN 0 (NaN, NaN))"
proof (intro conjI impI)
  assume k: "0 < k"
  then have k0: "k \<noteq> 0" by simp
  define topk where "topk = drop (length y_score - nat k) (argsort (to_float y_score))"
  define lab where "lab = filter (\<lambda>v. \<not> isnan v) (map ((!) (to_float y_true)) topk)"
  define p where "p = real (length (filter (\<lambda>i. y_true ! i = Flt 1) topk))"
  have len: "length topk = min (nat k) (length y_score)"
    by (simp add: topk_def length_argsort [OF assms(1)] length_to_float min_def)
  have dist: "distinct topk"
    by (simp add: topk_def distinct_argsort [OF assms(1)])
  have sub: "set topk \<subseteq> {..<length y_score}"
    using set_drop_subset [of "length y_score - nat k" "argsort (to_float y_score)"]
    by (simp add: topk_def set_argsort [OF assms(1)] length_to_float)
  have high: "\<forall>i\<in>set topk. \<forall>j<length y_score. j \<notin> set topk \<longrightarrow>
      rank_key (to_float y_score ! j) \<le> rank_key (to_float y_score ! i)"
    unfolding topk_def
    using drop_argsort_highest [OF assms(1), of _ _ "to_float y_score"]
    by (simp add: length_to_float)
  have res: "precision_at_k argsort array_sum y_true y_score k True True =
      Inr (With_bounds (if int (length lab) \<noteq> 0 then vdiv (array_sum lab) (Flt (of_int (int (length lab)))) else NaN)
            (int (length lab))
            (vdiv (array_sum lab) (Flt (of_int k)),
             vdiv (vsub (vadd (array_sum lab) (Flt (of_int k))) (Flt (of_int (int (length lab)))))
               (Flt (of_int k))))"
    unfolding lab_def topk_def
    by (rule precision_at_k_of_top_k [OF top_k_extrapolate [OF assms(1,3) k] k0])
  have bin: "precision_at_k argsort array_sum y_true y_score k True True =
      Inr (With_bounds (if int (length lab) \<noteq> 0 then Flt (p / of_int (int (length lab))) else NaN)
            (int (length lab))
            (Flt (p / of_int k), Flt ((p + of_int k - of_int (int (length lab))) / of_int k)))"
    if b: "set y_true \<subseteq> {Flt 0, Flt 1, NaN}" and k23: "k \<le> 2 ^ 23"
  proof -
    have same: "to_float y_true = y_true" using b by (rule to_float_binary)
    have "set lab \<subseteq> {Flt 0, Flt 1}"
    proof
      fix v assume "v \<in> set lab"
      then obtain i where "i \<in> set topk" and v: "v = y_true ! i" and "\<not> isnan v"
        by (auto simp: lab_def same)
      then have "i < length y_true" using sub assms(3) by auto
      then have "v \<in> set y_true" using v by simp
      then show "v \<in> {Flt 0, Flt 1}" using b \<open>\<not> isnan v\<close> by auto
    qed
    moreover have "length lab \<le> 2 ^ 24"
    proof -
      have "length lab \<le> length topk" by (simp add: lab_def)
      moreover have "length topk \<le> nat k" using len by simp
      moreover have "nat k \<le> 2 ^ 23" using k23 by simp
      ultimately show ?thesis by simp
    qed
    ultimately have "array_sum lab = Flt (real (length (filter (\<lambda>v. v = Flt 1) lab)))"
      by (rule is_sum32_binary [OF assms(2)])
    also have "length (filter (\<lambda>v. v = Flt 1) lab) = length (filter (\<lambda>i. y_true ! i = Flt 1) topk)"
    proof -
      have "\<And>v. (\<not> isnan v \<and> v = Flt 1) = (v = Flt 1)" by auto
      then show ?thesis by (simp add: lab_def same filter_map comp_def)
    qed
    finally have n: "array_sum lab = Flt p" by (simp add: p_def)
    show ?thesis unfolding res n using k0 by (simp add: vsub_def)
  qed
  show "let topk = drop (length y_score - nat k) (argsort (to_float y_score));
           lab = filter (\<lambda>v. \<not> isnan v) (map ((!) (to_float y_true)) topk);
           n = array_sum lab;
           d = int (length lab);
           p = real (length (filter (\<lambda>i. y_true ! i = Flt 1) topk))
       in precision_at_k argsort array_sum y_true y_score k True True =
            Inr (With_bounds (if d \<noteq> 0 then vdiv n (Flt (of_int d)) else NaN) d
                  (vdiv n (Flt (of_int k)),
                   vdiv (vsub (vadd n (Flt (of_int k))) (Flt (of_int d))) (Flt (of_int k)))) \<and>
          length topk = min (nat k) (length y_score) \<and> distinct topk \<and>
          set topk \<subseteq> {..<length y_score} \<and>
          (\<forall>i\<in>set topk. \<forall>j<length y_score. j \<notin> set topk \<longrightarrow>
              rank_key (to_float y_score ! j) \<le> rank_key (to_float y_score ! i)) \<and>
          (set y_true \<subseteq> {Flt 0, Flt 1, NaN} \<and> k \<le> 2 ^ 23 \<longrightarrow>
             precision_at_k argsort array_sum y_true y_score k True True =
               Inr (With_bounds (if d \<noteq> 0 then Flt (p / of_int d) else NaN) d
                     (Flt (p / of_int k), Flt ((p + of_int k - of_int d) / of_int k))))"
    unfolding Let_def
    using res len dist sub high bin
    unfolding lab_def topk_def p_def by blast
next
  show "precision_at_k argsort array_sum y_true y_score 0 True True = Inr (With_bounds NaN 0 (NaN, NaN))"
    using assms(3) by (simp add: precision_at_k_def top_k_def)
qed

theorem precision_at_k_extrapolate_bounds_witness:
  "is_argsort stable_argsort \<and> is_sum32 sum32 \<and>
   length [Flt 1, Flt 0, Flt 1, NaN] = length [Flt (9/10), Flt (1/10), Flt (2/5), Flt (1/2)] \<and>
   precision_at_k stable_argsort sum32 [Flt 1, Flt 0, Flt 1, NaN]
       [Flt (9/10), Flt (1/10), Flt (2/5), Flt (1/2)] 3 True True
     = Inr (With_bounds (Flt 1) 2 (Flt (2/3), Flt 1)) \<and>
   precision_at_k stable_argsort sum32 [Flt 1, Flt 0, Flt 1, NaN]
       [Flt (9/10), Flt (1/10), Flt (2/5), Flt (1/2)] 0 True True
     = Inr (With_bounds NaN 0 (NaN, NaN))"
proof -
  have s: "to_float [Flt (9/10), Flt (1/10), Flt (2/5), Flt (1/2)]
      = [Flt (7549747 / 8388608), Flt (13421773 / 134217728), Flt (13421773 / 33554432),
         Flt (1/2)]"
    by (simp add: to_float_def float32_09 float32_01 float32_05 float32_04)
  have a: "stable_argsort
      [Flt (7549747 / 8388608), Flt (13421773 / 134217728), Flt (13421773 / 33554432),
       Flt (1/2)] = [1, 2, 3, 0]"
    by (simp add: stable_argsort_def upt_conv_Cons)
  have l: "length [Flt 1, Flt 0, Flt 1, NaN] = length [Flt (9/10), Flt (1/10), Flt (2/5), Flt (1/2)]"
    by simp
  show ?thesis
    using precision_at_k_extrapolate_bounds [OF is_argsort_stable is_sum32_sum32 l, of 3]
      is_argsort_stable is_sum32_sum32
    by (simp add: to_float_example_labels s a Let_def sum32_ones vsub_def)
qed

text \<open>
  The same two inputs refute the claim: the top position by score carries the label \<open>1\<close>
  on the first and the label \<open>0\<close> on the second, so the claim gives the bounds \<open>(1, 1)\<close>
  and \<open>(0, 0)\<close>; the code returns the same bounds on both, whatever \<open>argsort\<close> and the
  sum do.
\<close>

theorem precision_at_k_extrapolate_close_scores:
  "\<forall>argsort array_sum.
     precision_at_k argsort array_sum [Flt 1, Flt 0] [Flt (1 + 1 / 10 ^ 9), Flt 1] 1 True True
       = precision_at_k argsort array_sum [Flt 1, Flt 0] [Flt 1, Flt (1 + 1 / 10 ^ 9)] 1 True True"
  using to_float_close_scores by (simp add: precision_at_k_def top_k_def)

section \<open>Properties of window tokens and column names\<close>

lemma match_field_ok:
  assumes "f \<noteq> []" and "CHR ''_'' \<notin> set f"
  shows "match_field (f @ CHR ''_'' # r) = Some (f @ ''_'', r)"
proof -
  have all: "\<And>c. c \<in> set f \<Longrightarrow> c \<noteq> CHR ''_''"
    using assms(2) by auto
  have t: "takeWhile (\<lambda>c. c \<noteq> CHR ''_'') (f @ CHR ''_'' # r) = f"
    using all by (simp add: takeWhile_append2)
  have d: "dropWhile (\<lambda>c. c \<noteq> CHR ''_'') (f @ CHR ''_'' # r) = CHR ''_'' # r"
    using all by (simp add: dropWhile_append2)
  show ?thesis
    using assms(1) by (simp add: match_field_def t d)
qed

lemma delta_regex_findall_token:
  assumes "ds \<noteq> []" and "\<And>c. c \<in> set ds \<Longrightarrow> is_digit c" and "\<not> is_digit u"
  shows "delta_regex_findall (ds @ [u]) = (if u \<in> set ''usMhdmy'' then [(ds, [u])] else [])"
proof -
  have t: "takeWhile is_digit (ds @ [u]) = ds"
    using assms(2,3) by (simp add: takeWhile_append2)
  have d: "dropWhile is_digit (ds @ [u]) = [u]"
    using assms(2,3) by (simp add: dropWhile_append2)
  show ?thesis
    using assms(1) by (simp add: delta_regex_findall_def t d)
qed

text \<open>
  A run of digits followed by one of the units of the pattern is parsed to the count and
  the keyword of the unit; followed by \<open>w\<close>, it is refused.
\<close>

lemma parse_delta_token:
  assumes "ds \<noteq> []" and "\<And>c. c \<in> set ds \<Longrightarrow> is_digit c" and "u \<in> set ''usMhdmy''"
  shows "parse_delta (ds @ [u])
     = Inr (Some (Relativedelta (the (delta_chars [u])) (int_of_digits ds)))"
proof -
  have nd: "\<not> is_digit u" using assms(3) by (auto simp: is_digit_def)
  have na: "ds @ [u] \<noteq> ''all''"
  proof
    assume "ds @ [u] = ''all''"
    then have "hd ds = CHR ''a''" using assms(1) by (cases ds) auto
    moreover have "is_digit (hd ds)" using assms(1,2) by simp
    ultimately show False by (simp add: is_digit_def)
  qed
  have "delta_regex_findall (ds @ [u]) = [(ds, [u])]"
    using delta_regex_findall_token [OF assms(1,2) nd] assms(3) by simp
  moreover have "delta_chars [u] \<noteq> None"
    using assms(3) by (auto simp: delta_chars_def)
  ultimately show ?thesis
    using na by (auto simp: parse_delta_def)
qed

lemma parse_delta_weeks:
  assumes "ds \<noteq> []" and "\<And>c. c \<in> set ds \<Longrightarrow> is_digit c"
  shows "parse_delta (ds @ ''w'') = Inl (ValueError (Invalid_delta (ds @ ''w'')))"
proof -
  have na: "ds @ ''w'' \<noteq> ''all''"
  proof
    assume "ds @ ''w'' = ''all''"
    then have "hd ds = CHR ''a''" using assms(1) by (cases ds) auto
    moreover have "is_digit (hd ds)" using assms(1,2) by simp
    ultimately show False by (simp add: is_digit_def)
  qed
  have "delta_regex_findall (ds @ ''w'') = []"
    using delta_regex_findall_token [OF assms, of "CHR ''w''"] by (simp add: is_digit_def)
  then show ?thesis
    using na by (simp add: parse_delta_def)
qed

text \<open>
  C3: \<open>parse_delta\<close> at the token \<open>3w\<close>. The table \<open>delta_chars\<close> has the unit \<open>w\<close>
  (weeks), the pattern has not: the token is refused with the \<open>ValueError\<close> of an invalid
  token, where \<open>3y\<close> gives three years. A token followed by a newline is accepted.
\<close>

theorem parse_delta_weeks_token:
  "parse_delta ''3w'' = Inl (ValueError (Invalid_delta ''3w'')) \<and>
   delta_chars ''w'' = Some ''weeks'' \<and>
   parse_delta ''3y'' = Inr (Some (Relativedelta ''years'' 3)) \<and>
   parse_delta (''3y'' @ [CHR 0x0A]) = Inr (Some (Relativedelta ''years'' 3))"
  by (simp add: parse_delta_def delta_regex_findall_def is_digit_def delta_chars_def
      int_of_digits_def digit_value_def)

text \<open>
  C9, as amended: when prefix, space and delta are non-empty and hold no underscore,
  \<open>get_spacetime_prefix\<close> of the generated column name returns the three fields, each
  followed by an underscore.
\<close>

theorem get_spacetime_prefix_column_name:
  assumes "pre \<noteq> []" and "CHR ''_'' \<notin> set pre"
    and "space \<noteq> []" and "CHR ''_'' \<notin> set space"
    and "delta \<noteq> []" and "CHR ''_'' \<notin> set delta"
  shows "get_spacetime_prefix (column_name pre space delta metric)
     = Inr (pre @ ''_'' @ space @ ''_'' @ delta @ ''_'')"
  using assms
  by (simp add: get_spacetime_prefix_def spacetime_prefix_regex_findall_def column_name_def
      match_field_ok)

theorem get_spacetime_prefix_column_name_witness:
  "''tests'' \<noteq> [] \<and> CHR ''_'' \<notin> set ''tests'' \<and> ''tract'' \<noteq> [] \<and> CHR ''_'' \<notin> set ''tract'' \<and>
   ''3y'' \<noteq> [] \<and> CHR ''_'' \<notin> set ''3y'' \<and>
   get_spacetime_prefix ''tests_tract_3y_count_x'' = Inr ''tests_tract_3y_''"
  using get_spacetime_prefix_column_name [of "''tests''" "''tract''" "''3y''" "''count_x''"]
  by (simp add: column_name_def)

text \<open>
  C9 as stated fails for an empty field: with the empty prefix the generated name starts
  with an underscore, the pattern does not match, and indexing the empty list of matches
  raises \<open>IndexError\<close>.
\<close>

theorem get_spacetime_prefix_empty_prefix:
  "CHR ''_'' \<notin> set '''' \<and> CHR ''_'' \<notin> set ''tract'' \<and> CHR ''_'' \<notin> set ''3y'' \<and>
   get_spacetime_prefix (column_name '''' ''tract'' ''3y'' ''count'') = Inl IndexError \<and>
   get_spacetime_prefix (column_name '''' ''tract'' ''3y'' ''count'') \<noteq> Inr ''_tract_3y_''"
  by (simp add: get_spacetime_prefix_def spacetime_prefix_regex_findall_def column_name_def
      match_field_def)

section \<open>Properties of censoring\<close>

lemma collect_map_total:
  assumes "\<And>x. x \<in> set xs \<Longrightarrow> f x = Inr (g x)"
  shows "collect (map f xs) = Inr (map g xs)"
  using assms by (induction xs) simp_all










section \<open>Properties of aggregation\<close>

subsection \<open>Auxiliary facts\<close>

lemma map_of_replace_other:
  "k \<noteq> name \<Longrightarrow>
   map_of (map (\<lambda>(n, c). if n = name then (n, v) else (n, c)) xs) k = map_of xs k"
  by (induction xs) (simp_all add: case_prod_beta)

lemma map_of_replace_same:
  "name \<in> fst ` set xs \<Longrightarrow>
   map_of (map (\<lambda>(n, c). if n = name then (n, v) else (n, c)) xs) name = Some v"
  by (induction xs) (auto simp: case_prod_beta)


lemma set_column_labels: "labels (set_column df n v) = labels df"
  by (simp add: set_column_def)

lemma get_column_set_column_same: "get_column (set_column df name v) name = Inr v"
proof (cases "name \<in> fst ` set (cols df)")
  case True
  then show ?thesis
    by (simp add: get_column_def set_column_def column_names_def map_of_replace_same)
next
  case False
  then have "map_of (cols df) name = None" by (simp add: map_of_eq_None_iff)
  then show ?thesis
    using False by (simp add: get_column_def set_column_def column_names_def map_add_def)
qed

lemma get_column_set_column_other:
  assumes "k \<noteq> name"
  shows "get_column (set_column df name v) k = get_column df k"
proof (cases "name \<in> fst ` set (cols df)")
  case True
  then show ?thesis
    using assms by (simp add: get_column_def set_column_def column_names_def map_of_replace_other)
next
  case False
  then show ?thesis
    using assms
    by (simp add: get_column_def set_column_def column_names_def map_add_def
        split: option.splits)
qed

lemma assign_Inr:
  assumes "assign df n x = Inr df'"
  shows "\<exists>c. df' = set_column df n c \<and> length c = nrows df \<and>
     (case x of Series s \<Rightarrow> c = s | Scalar_value v \<Rightarrow> c = replicate (nrows df) v)"
proof (cases x)
  case (Series s)
  then show ?thesis using assms by (simp add: assign_def split: if_splits)
next
  case (Scalar_value v)
  then show ?thesis using assms by (auto simp: assign_def)
qed

lemma assign_labels: "assign df n x = Inr df' \<Longrightarrow> labels df' = labels df"
  using assign_Inr [of df n x df'] by (auto simp: set_column_labels)


lemma dict_set_keys: "fst ` set (dict_set d k v) = insert k (fst ` set d)"
proof (cases "k \<in> fst ` set d")
  case True
  have "fst ` set (map (\<lambda>(k', v'). if k' = k then (k', v) else (k', v')) d) = fst ` set d"
    by (induction d) (auto simp: case_prod_beta)
  then show ?thesis using True by (auto simp: dict_set_def)
next
  case False
  then show ?thesis by (auto simp: dict_set_def)
qed

lemma add_metric_dict:
  assumes "add_metric df (df2, d) (c, agg) = Inr (df2', d')"
  shows "d' = (case denominator agg of
             None \<Rightarrow> dict_set d (c @ ''_numerator'')
                      (case func agg of None \<Rightarrow> Named ''sum'' | Some f \<Rightarrow> f)
           | Some a \<Rightarrow>
               dict_set
                 (dict_set d (c @ ''_numerator'')
                    (case func agg of None \<Rightarrow> Named ''sum'' | Some f \<Rightarrow> f))
                 (c @ ''_denominator'')
                 (case denominator_func agg of
                    Some g \<Rightarrow> g
                  | None \<Rightarrow> (case func agg of None \<Rightarrow> Named ''sum'' | Some f \<Rightarrow> f)))"
  using assms
  by (simp add: add_metric_def Let_def split: sum.splits option.splits)

lemma add_metric_frames:
  assumes "add_metric df (df2, d) (c, agg) = Inr (df2', d')"
  shows "\<exists>num df2a. assign df2 (c @ ''_numerator'') num = Inr df2a \<and>
     (case denominator agg of
        None \<Rightarrow> df2' = df2a
      | Some a \<Rightarrow> (\<exists>den. assign df2a (c @ ''_denominator'') den = Inr df2'))"
  using assms
  by (simp add: add_metric_def Let_def split: sum.splits option.splits) blast+

lemma add_metric_labels:
  assumes "add_metric df (df2, d) (c, agg) = Inr (df2', d')"
  shows "labels df2' = labels df2"
proof -
  from add_metric_frames [OF assms] obtain num df2a where
    n: "assign df2 (c @ ''_numerator'') num = Inr df2a" and
    r: "case denominator agg of
          None \<Rightarrow> df2' = df2a
        | Some a \<Rightarrow> (\<exists>den. assign df2a (c @ ''_denominator'') den = Inr df2')"
    by blast
  have "labels df2a = labels df2" using n by (rule assign_labels)
  moreover have "labels df2' = labels df2a"
  proof (cases "denominator agg")
    case None
    then show ?thesis using r by simp
  next
    case (Some a)
    then obtain den where "assign df2a (c @ ''_denominator'') den = Inr df2'"
      using r by auto
    then show ?thesis by (rule assign_labels)
  qed
  ultimately show ?thesis by simp
qed

lemma add_metric_keys:
  assumes "add_metric df (df2, d) (c, agg) = Inr (df2', d')"
  shows "fst ` set d' = fst ` set d \<union> {c @ ''_numerator''} \<union>
        (if denominator agg = None then {} else {c @ ''_denominator''})"
proof (cases "denominator agg")
  case None
  then show ?thesis
    using add_metric_dict [OF assms] by (simp add: dict_set_keys)
next
  case (Some a)
  then show ?thesis
    using add_metric_dict [OF assms] by (simp add: dict_set_keys insert_commute Un_commute)
qed


lemma add_metrics_labels:
  "add_metrics df (df2, d) ms = Inr (df2', d') \<Longrightarrow> labels df2' = labels df2"
proof (induction ms arbitrary: df2 d)
  case Nil
  then show ?case by simp
next
  case (Cons m ms)
  obtain c agg where m: "m = (c, agg)" by (cases m)
  from Cons.prems obtain df2a da where
    one: "add_metric df (df2, d) (c, agg) = Inr (df2a, da)" and
    rest: "add_metrics df (df2a, da) ms = Inr (df2', d')"
    by (auto simp: m split: sum.splits)
  show ?case
    using add_metric_labels [OF one] Cons.IH [OF rest] by simp
qed

lemma add_metrics_keys:
  assumes "add_metrics df (df2, d) ms = Inr (df2', d')" and "(c, agg) \<in> set ms"
  shows "c @ ''_numerator'' \<in> fst ` set d' \<and>
     (denominator agg \<noteq> None \<longrightarrow> c @ ''_denominator'' \<in> fst ` set d')"
proof -
  have mono: "fst ` set d \<subseteq> fst ` set d'"
    if "add_metrics df (df2, d) ms = Inr (df2', d')" for df2 d ms
    using that
  proof (induction ms arbitrary: df2 d)
    case Nil
    then show ?case by simp
  next
    case (Cons m ms)
    obtain c agg where m: "m = (c, agg)" by (cases m)
    from Cons.prems obtain df2a da where
      one: "add_metric df (df2, d) (c, agg) = Inr (df2a, da)" and
      rest: "add_metrics df (df2a, da) ms = Inr (df2', d')"
      by (auto simp: m split: sum.splits)
    have "fst ` set d \<subseteq> fst ` set da"
      using add_metric_keys [OF one] by blast
    then show ?case using Cons.IH [OF rest] by blast
  qed
  show ?thesis
    using assms
  proof (induction ms arbitrary: df2 d)
    case Nil
    then show ?case by simp
  next
    case (Cons m ms)
    obtain c' agg' where m: "m = (c', agg')" by (cases m)
    from Cons.prems(1) obtain df2a da where
      one: "add_metric df (df2, d) (c', agg') = Inr (df2a, da)" and
      rest: "add_metrics df (df2a, da) ms = Inr (df2', d')"
      by (auto simp: m split: sum.splits)
    show ?case
    proof (cases "(c, agg) = m")
      case True
      then have "c @ ''_numerator'' \<in> fst ` set da \<and>
          (denominator agg \<noteq> None \<longrightarrow> c @ ''_denominator'' \<in> fst ` set da)"
        using add_metric_keys [OF one] m by auto
      then show ?thesis using mono [OF rest] by blast
    next
      case False
      then have "(c, agg) \<in> set ms" using Cons.prems(2) by auto
      then show ?thesis using Cons.IH [OF rest] by blast
    qed
  qed
qed


lemma collect_InrD: "collect rs = Inr xs \<Longrightarrow> rs = map Inr xs"
proof (induction rs arbitrary: xs rule: collect.induct)
  case 1
  then show ?case by simp
next
  case (2 e rs)
  then show ?case by simp
next
  case (3 x rs)
  from "3.prems" obtain ys where ys: "collect rs = Inr ys" and xs: "xs = x # ys"
    by (cases "collect rs") simp_all
  from "3.IH" [OF ys] show ?case by (simp add: xs)
qed

lemma collect_map_Inr:
  assumes "collect (map F xs) = Inr ys"
  shows "list_all2 (\<lambda>x y. F x = Inr y) xs ys"
proof -
  have eq: "map F xs = map Inr ys" using assms by (rule collect_InrD)
  have len: "length xs = length ys"
    using arg_cong [OF eq, of length] by simp
  have "F (xs ! i) = Inr (ys ! i)" if "i < length xs" for i
  proof -
    have "map F xs ! i = map Inr ys ! i" using eq by simp
    then show ?thesis using that len by simp
  qed
  then show ?thesis using len by (simp add: list_all2_conv_all_nth)
qed

lemma collect_map_length: "collect (map F xs) = Inr ys \<Longrightarrow> length ys = length xs"
  using collect_map_Inr [of F xs ys] by (simp add: list_all2_lengthD)



lemma agg_column_Inr:
  assumes "agg_column df names keys groups x = Inr y"
  shows "fst y = fst x \<and> (\<exists>vs. snd y = map Number vs \<and> length vs = length groups)"
proof -
  obtain c f where x: "x = (c, f)" by (cases x)
  have "\<exists>vs out.
      collect (map (\<lambda>k. apply_func f (masked vs (map (\<lambda>k'. k' = k) keys))) groups) = Inr out
      \<and> y = (c, map Number out)"
    using assms by (simp add: agg_column_def x split: if_splits sum.splits) blast
  then obtain vs out where
    "collect (map (\<lambda>k. apply_func f (masked vs (map (\<lambda>k'. k' = k) keys))) groups) = Inr out"
    and y: "y = (c, map Number out)"
    by blast
  then have "length out = length groups" using collect_map_length by blast
  then show ?thesis using y x by auto
qed

lemma list_all2_fst:
  assumes "list_all2 (\<lambda>x y. F x = Inr y) d cs" and "\<And>x y. F x = Inr y \<Longrightarrow> fst y = fst x"
  shows "map fst cs = map fst d"
  using assms by (induction d cs rule: list_all2_induct) simp_all

lemma groupby_agg_cols:
  assumes "groupby_agg df names d = Inr df3"
  shows "map fst (cols df3) = map fst d \<and>
     (\<forall>p\<in>set (cols df3). \<exists>vs. snd p = map Number vs \<and> length vs = nrows df3)"
proof -
  have "\<exists>keys. row_keys df names = Inr keys"
    using assms by (cases "row_keys df names") (simp_all add: groupby_agg_def split: if_splits)
  then obtain keys where k: "row_keys df names = Inr keys" by blast
  define groups where
    "groups = sort_keys (remdups (filter (\<lambda>k. \<not> list_ex is_null k) keys))"
  have n: "names \<noteq> []" using assms by (auto simp: groupby_agg_def)
  have "\<exists>cs. collect (map (agg_column df names keys groups) d) = Inr cs
      \<and> df3 = \<lparr>labels = groups, cols = cs\<rparr>"
    using assms n k
    by (cases "collect (map (agg_column df names keys groups) d)")
       (simp_all add: groupby_agg_def Let_def groups_def)
  then obtain cs where
    c: "collect (map (agg_column df names keys groups) d) = Inr cs"
    and df3: "df3 = \<lparr>labels = groups, cols = cs\<rparr>"
    by blast
  have all: "list_all2 (\<lambda>x y. agg_column df names keys groups x = Inr y) d cs"
    using c by (rule collect_map_Inr)
  have fst: "map fst cs = map fst d"
  proof (rule list_all2_fst [OF all])
    fix x y assume "agg_column df names keys groups x = Inr y"
    then show "fst y = fst x" using agg_column_Inr by blast
  qed
  have cells: "\<exists>vs. snd p = map Number vs \<and> length vs = length groups" if "p \<in> set cs" for p
  proof -
    from that obtain i where i: "i < length cs" and p: "p = cs ! i"
      by (metis in_set_conv_nth)
    then have "agg_column df names keys groups (d ! i) = Inr p"
      using all by (simp add: list_all2_conv_all_nth)
    then show ?thesis using agg_column_Inr by blast
  qed
  show ?thesis
    using fst cells by (simp add: df3 nrows_def)
qed

lemma groupby_agg_get_column:
  assumes "groupby_agg df names d = Inr df3" and "name \<in> fst ` set d"
  shows "\<exists>vs. get_column df3 name = Inr (map Number vs) \<and> length vs = nrows df3"
proof -
  note g = groupby_agg_cols [OF assms(1)]
  have "set (map fst (cols df3)) = set (map fst d)" using g by simp
  then have "name \<in> fst ` set (cols df3)"
    using assms(2) by simp
  then have "map_of (cols df3) name \<noteq> None" by (simp add: map_of_eq_None_iff)
  then obtain cs where m: "map_of (cols df3) name = Some cs" by blast
  then have "(name, cs) \<in> set (cols df3)" by (rule map_of_SomeD)
  then obtain vs where "cs = map Number vs" and "length vs = nrows df3"
    using g by fastforce
  then have "get_column df3 name = Inr (map Number vs) \<and> length vs = nrows df3"
    using m by (simp add: get_column_def)
  then show ?thesis by blast
qed




lemma divide_numbers:
  "divide_columns (map Number a) (map Number b) = Inr (map Number (map2 vdiv a b))"
proof -
  have "divide_columns (map Number a) (map Number b)
      = collect (map (\<lambda>p. divide_cells (Number (fst p)) (Number (snd p))) (zip a b))"
    by (simp add: divide_columns_def zip_map_map case_prod_beta comp_def)
  also have "\<dots> = Inr (map (\<lambda>p. Number (vdiv (fst p) (snd p))) (zip a b))"
    by (rule collect_map_total) (simp add: divide_cells_def)
  also have "map (\<lambda>p. Number (vdiv (fst p) (snd p))) (zip a b) = map Number (map2 vdiv a b)"
    by (simp add: case_prod_beta comp_def)
  finally show ?thesis .
qed

lemma vdiv_zero:
  "vdiv n (Flt 0) =
     (if n = Flt 0 \<or> n = NaN then NaN else if 0 < vsgn n then PosInf else NegInf)"
  by (cases n) (simp_all add: signed_inf_def)

lemma collect_metrics_other:
  "c \<notin> fst ` set columns \<Longrightarrow> collect_metrics df3 df4 columns = Inr out \<Longrightarrow>
   get_column out c = get_column df4 c"
proof (induction df3 df4 columns rule: collect_metrics.induct)
  case (1 df3 df4)
  then show ?case by simp
next
  case (2 df3 df4 column agg rest)
  from "2.prems"(1) have ne: "c \<noteq> column" and nr: "c \<notin> fst ` set rest" by auto
  from "2.prems"(2) obtain num where num: "get_column df3 (column @ ''_numerator'') = Inr num"
    by (cases "get_column df3 (column @ ''_numerator'')") simp_all
  show ?case
  proof (cases "denominator agg")
    case None
    then have "collect_metrics df3 (set_column df4 column num) rest = Inr out"
      using "2.prems"(2) num by simp
    from "2.IH"(1) [OF num None nr this] show ?thesis
      using ne by (simp add: get_column_set_column_other)
  next
    case (Some a)
    from "2.prems"(2) num Some obtain den where
      den: "get_column df3 (column @ ''_denominator'') = Inr den"
      by (cases "get_column df3 (column @ ''_denominator'')") simp_all
    from "2.prems"(2) num Some den obtain q where q: "divide_columns num den = Inr q"
      by (cases "divide_columns num den") simp_all
    have "collect_metrics df3 (set_column df4 column q) rest = Inr out"
      using "2.prems"(2) num Some den q by simp
    from "2.IH"(2) [OF num Some den q nr this] show ?thesis
      using ne by (simp add: get_column_set_column_other)
  qed
qed




lemma collect_metrics_total:
  assumes "\<And>c agg. (c, agg) \<in> set columns \<Longrightarrow>
      (\<exists>num. get_column df3 (c @ ''_numerator'') = Inr (map Number num)) \<and>
      (denominator agg \<noteq> None \<longrightarrow>
         (\<exists>den. get_column df3 (c @ ''_denominator'') = Inr (map Number den)))"
  shows "\<exists>out. collect_metrics df3 df4 columns = Inr out"
  using assms
proof (induction columns arbitrary: df4)
  case Nil
  then show ?case by simp
next
  case (Cons m ms)
  obtain c agg where m: "m = (c, agg)" by (cases m)
  have rest: "\<exists>out. collect_metrics df3 df4' ms = Inr out" for df4'
    by (rule Cons.IH) (use Cons.prems in auto)
  from Cons.prems [of c agg] obtain num where
    num: "get_column df3 (c @ ''_numerator'') = Inr (map Number num)"
    by (auto simp: m)
  show ?case
  proof (cases "denominator agg")
    case None
    then show ?thesis using num rest by (simp add: m)
  next
    case (Some a)
    with Cons.prems [of c agg] obtain den where
      den: "get_column df3 (c @ ''_denominator'') = Inr (map Number den)"
      by (auto simp: m)
    show ?thesis using Some num den rest by (simp add: m divide_numbers)
  qed
qed

lemma collect_metrics_value:
  assumes "collect_metrics df3 df4 columns = Inr out" and "distinct (map fst columns)"
    and "(c, agg) \<in> set columns" and "denominator agg \<noteq> None"
    and "get_column df3 (c @ ''_numerator'') = Inr (map Number num)"
    and "get_column df3 (c @ ''_denominator'') = Inr (map Number den)"
  shows "get_column out c = Inr (map Number (map2 vdiv num den))"
  using assms(1,2,3)
proof (induction columns arbitrary: df4)
  case Nil
  then show ?case by simp
next
  case (Cons m ms)
  obtain c' agg' where m: "m = (c', agg')" by (cases m)
  show ?case
  proof (cases "m = (c, agg)")
    case True
    then have c': "c' = c" and agg': "agg' = agg" using m by simp_all
    from assms(4) obtain a where a: "denominator agg = Some a" by auto
    have run: "collect_metrics df3 (set_column df4 c (map Number (map2 vdiv num den))) ms
        = Inr out"
      using Cons.prems(1) assms(5,6) a by (simp add: m c' agg' divide_numbers)
    have "c \<notin> fst ` set ms" using Cons.prems(2) by (simp add: m c')
    from collect_metrics_other [OF this run] show ?thesis
      by (simp add: get_column_set_column_same)
  next
    case False
    then have mem: "(c, agg) \<in> set ms" using Cons.prems(3) by auto
    have d: "distinct (map fst ms)" using Cons.prems(2) by simp
    from Cons.prems(1) obtain df4' where "collect_metrics df3 df4' ms = Inr out"
      by (auto simp: m split: sum.splits option.splits)
    from Cons.IH [OF this d mem] show ?thesis .
  qed
qed

lemma collect_metrics_labels:
  "collect_metrics df3 df4 cs = Inr out \<Longrightarrow> labels out = labels df4"
proof (induction cs arbitrary: df4)
  case Nil
  then show ?case by simp
next
  case (Cons m ms)
  obtain c agg where m: "m = (c, agg)" by (cases m)
  from Cons.prems obtain v where "collect_metrics df3 (set_column df4 c v) ms = Inr out"
    by (auto simp: m split: sum.splits option.splits)
  from Cons.IH [OF this] show ?case by (simp add: set_column_labels)
qed




lemma aggregated_grouped:
  assumes "aggregated df columns (Some index) = Inr df3"
  shows "\<exists>names df2_0 df2 agg_dict.
     add_metrics df (df2_0, []) columns = Inr (df2, agg_dict) \<and>
     groupby_agg df2 names agg_dict = Inr df3"
proof (cases index)
  case (Name n)
  have "\<exists>df2_0 df2 agg_dict.
     add_metrics df (df2_0, []) columns = Inr (df2, agg_dict) \<and>
     groupby_agg df2 [n] agg_dict = Inr df3"
    using assms by (simp add: aggregated_def Name split: sum.splits prod.splits) blast
  then show ?thesis by blast
next
  case (Names ns)
  have "\<exists>df2_0 df2 agg_dict.
     add_metrics df (df2_0, []) columns = Inr (df2, agg_dict) \<and>
     groupby_agg df2 ns agg_dict = Inr df3"
    using assms by (simp add: aggregated_def Names split: sum.splits prod.splits) blast
  then show ?thesis by blast
qed

lemma aggregated_example:
  "aggregated
     \<lparr>labels = [[Number (Flt 0)], [Number (Flt 1)]],
      cols = [(''g'', [Text ''a'', Text ''a'']), (''x'', [Number (Flt 1), Number (Flt 3)]),
              (''w'', [Number (Flt 0), Number (Flt 0)])]\<rparr>
     [(''r'', \<lparr>numerator = Some (Str ''x''), denominator = Some (Str ''w''),
               func = Some (Named ''sum''), denominator_func = None\<rparr>)]
     (Some (Name ''g''))
   = Inr \<lparr>labels = [[Text ''a'']],
          cols = [(''r_numerator'', [Number (Flt 4)]), (''r_denominator'', [Number (Flt 0)])]\<rparr>"
  by (simp add: aggregated_def select_columns_def get_column_def add_metric_def series_def
      column_names_def assign_def nrows_def set_column_def dict_set_def groupby_agg_def
      row_keys_def agg_column_def sort_keys_def sort_by_def apply_func_def agg_sum_def notnull_def
      vsum_def masked_def upt_conv_Cons Let_def)

lemma get_column_in_names: "get_column df x = Inr c \<Longrightarrow> x \<in> set (column_names df)"
proof -
  assume "get_column df x = Inr c"
  then have "map_of (cols df) x = Some c"
    by (cases "map_of (cols df) x") (simp_all add: get_column_def)
  then have "(x, c) \<in> set (cols df)" by (rule map_of_SomeD)
  then show ?thesis by (force simp: column_names_def)
qed

lemma series_column: "get_column df x = Inr c \<Longrightarrow> series df (Str x) = Inr (Series c)"
  using get_column_in_names [of df x c] by (simp add: series_def)

lemma aggregated_without_index:
  assumes "get_column df x = Inr xs" and "get_column df w = Inr ws"
    and "length xs = nrows df" and "length ws = nrows df"
  shows "aggregated df
      [(c, \<lparr>numerator = Some (Str x), denominator = Some (Str w), func = f,
              denominator_func = g\<rparr>)] None
    = Inr \<lparr>labels = labels df,
           cols = [(c @ ''_numerator'', xs), (c @ ''_denominator'', ws)]\<rparr>"
  using assms
  by (simp add: aggregated_def add_metric_def series_column assign_def nrows_def
      set_column_def column_names_def Let_def)

lemma aggregate_index_None_labels:
  assumes "aggregate df columns None = Inr out"
  shows "labels out = labels df"
proof -
  from assms obtain df3 where a: "aggregated df columns None = Inr df3"
    and c: "collect_metrics df3 \<lparr>labels = labels df3, cols = []\<rparr> columns = Inr out"
    by (cases "aggregated df columns None") (simp_all add: aggregate_def)
  have "\<exists>d. add_metrics df (\<lparr>labels = labels df, cols = []\<rparr>, []) columns = Inr (df3, d)"
    using a by (simp add: aggregated_def split: sum.splits prod.splits)
  then obtain d where
    "add_metrics df (\<lparr>labels = labels df, cols = []\<rparr>, []) columns = Inr (df3, d)"
    by blast
  then have "labels df3 = labels df" using add_metrics_labels by fastforce
  moreover have "labels out = labels df3" using collect_metrics_labels [OF c] by simp
  ultimately show ?thesis by simp
qed

subsection \<open>The claims\<close>

text \<open>
  C1, as amended: without an \<open>index\<close>, \<open>aggregate\<close> aggregates nothing. The result has
  the row labels of the input, one row per input row, and a metric with a numerator column
  and a denominator column is their quotient row by row, whatever the function \<open>func\<close>.
\<close>

theorem aggregate_without_index:
  assumes "get_column df x = Inr (map Number a)" and "get_column df w = Inr (map Number b)"
    and "length a = nrows df" and "length b = nrows df"
  shows "aggregate df
      [(c, \<lparr>numerator = Some (Str x), denominator = Some (Str w), func = f,
              denominator_func = g\<rparr>)] None
    = Inr \<lparr>labels = labels df, cols = [(c, map Number (map2 vdiv a b))]\<rparr> \<and>
    (aggregate df columns None = Inr out \<longrightarrow> labels out = labels df)"
proof -
  have "aggregated df
      [(c, \<lparr>numerator = Some (Str x), denominator = Some (Str w), func = f,
              denominator_func = g\<rparr>)] None
    = Inr \<lparr>labels = labels df,
           cols = [(c @ ''_numerator'', map Number a), (c @ ''_denominator'', map Number b)]\<rparr>"
    using assms by (intro aggregated_without_index) simp_all
  then have "aggregate df
      [(c, \<lparr>numerator = Some (Str x), denominator = Some (Str w), func = f,
              denominator_func = g\<rparr>)] None
    = Inr \<lparr>labels = labels df, cols = [(c, map Number (map2 vdiv a b))]\<rparr>"
    by (simp add: aggregate_def get_column_def divide_numbers set_column_def column_names_def)
  then show ?thesis
    using aggregate_index_None_labels by blast
qed

theorem aggregate_without_index_witness:
  "aggregate
     \<lparr>labels = [[Number (Flt 0)], [Number (Flt 1)], [Number (Flt 2)]],
      cols = [(''x'', [Number (Flt 1), Number (Flt 3), Number (Flt 5)]),
              (''w'', [Number (Flt 2), Number (Flt 4), Number (Flt 10)])]\<rparr>
     [(''r'', \<lparr>numerator = Some (Str ''x''), denominator = Some (Str ''w''),
               func = Some (Named ''sum''), denominator_func = None\<rparr>)]
     None
   = Inr \<lparr>labels = [[Number (Flt 0)], [Number (Flt 1)], [Number (Flt 2)]],
          cols = [(''r'', [Number (Flt (1/2)), Number (Flt (3/4)), Number (Flt (1/2))])]\<rparr>"
proof -
  let ?df = "\<lparr>labels = [[Number (Flt 0)], [Number (Flt 1)], [Number (Flt 2)]],
      cols = [(''x'', [Number (Flt 1), Number (Flt 3), Number (Flt 5)]),
              (''w'', [Number (Flt 2), Number (Flt 4), Number (Flt 10)])]\<rparr>"
  have x: "get_column ?df ''x'' = Inr (map Number [Flt 1, Flt 3, Flt 5])"
    by (simp add: get_column_def)
  have w: "get_column ?df ''w'' = Inr (map Number [Flt 2, Flt 4, Flt 10])"
    by (simp add: get_column_def)
  have la: "length [Flt 1, Flt 3, Flt 5] = nrows ?df" by (simp add: nrows_def)
  have lb: "length [Flt 2, Flt 4, Flt 10] = nrows ?df" by (simp add: nrows_def)
  show ?thesis
    using aggregate_without_index [OF x w la lb, of "''r''" "Some (Named ''sum'')" None]
    by simp
qed

text \<open>
  C1 as stated fails: on the rows \<open>(x=1, w=2)\<close>, \<open>(x=3, w=0)\<close> with numerator \<open>x\<close>,
  denominator \<open>w\<close> and \<open>func\<close> the sum, \<open>aggregate\<close> without an \<open>index\<close> returns the two
  rows \<open>0.5\<close> and \<open>+inf\<close>, not the single value \<open>2.0\<close>.
\<close>

theorem aggregate_without_index_example:
  "aggregate
     \<lparr>labels = [[Number (Flt 0)], [Number (Flt 1)]],
      cols = [(''x'', [Number (Flt 1), Number (Flt 3)]),
              (''w'', [Number (Flt 2), Number (Flt 0)])]\<rparr>
     [(''r'', \<lparr>numerator = Some (Str ''x''), denominator = Some (Str ''w''),
               func = Some (Named ''sum''), denominator_func = None\<rparr>)]
     None
   = Inr \<lparr>labels = [[Number (Flt 0)], [Number (Flt 1)]],
          cols = [(''r'', [Number (Flt (1/2)), Number PosInf])]\<rparr> \<and>
   [Number (Flt (1/2)), Number PosInf] \<noteq> [Number (Flt 2)]"
  by (simp add: aggregate_def aggregated_def add_metric_def series_def get_column_def
      column_names_def assign_def nrows_def set_column_def dict_set_def divide_columns_def
      divide_cells_def signed_inf_def Let_def)

text \<open>
  C2, as amended: for a grouped aggregation of numeric columns, the result exists
  (the division raises nothing). Where the aggregated denominator of a group is zero, the
  metric of the group is \<open>NaN\<close> exactly when the aggregated numerator is zero or \<open>NaN\<close>,
  and otherwise an infinity, whose sign is left open since it depends on the sign of the
  zero. Where the aggregated denominator is not zero, the metric is the quotient.
\<close>

theorem aggregate_zero_denominator:
  assumes "aggregated df columns (Some index) = Inr df3" and "distinct (map fst columns)"
    and "(c, agg) \<in> set columns" and "denominator agg \<noteq> None"
  shows "\<exists>out num den q.
     aggregate df columns (Some index) = Inr out \<and> labels out = labels df3 \<and>
     get_column df3 (c @ ''_numerator'') = Inr (map Number num) \<and>
     get_column df3 (c @ ''_denominator'') = Inr (map Number den) \<and>
     length num = nrows df3 \<and> length den = nrows df3 \<and>
     get_column out c = Inr (map Number q) \<and> length q = nrows df3 \<and>
     (\<forall>i<nrows df3.
        if den ! i = Flt 0
        then (if num ! i = Flt 0 \<or> num ! i = NaN then q ! i = NaN
              else q ! i = PosInf \<or> q ! i = NegInf)
        else q ! i = vdiv (num ! i) (den ! i))"
proof -
  from aggregated_grouped [OF assms(1)] obtain names df2_0 df2 agg_dict where
    add: "add_metrics df (df2_0, []) columns = Inr (df2, agg_dict)" and
    grp: "groupby_agg df2 names agg_dict = Inr df3"
    by blast
  have cols: "(\<exists>num. get_column df3 (c' @ ''_numerator'') = Inr (map Number num)
                 \<and> length num = nrows df3) \<and>
      (denominator agg' \<noteq> None \<longrightarrow>
         (\<exists>den. get_column df3 (c' @ ''_denominator'') = Inr (map Number den)
                 \<and> length den = nrows df3))"
    if "(c', agg') \<in> set columns" for c' agg'
    using add_metrics_keys [OF add that] groupby_agg_get_column [OF grp] by blast
  from cols [OF assms(3)] assms(4) obtain num den where
    num: "get_column df3 (c @ ''_numerator'') = Inr (map Number num)" and
    ln: "length num = nrows df3" and
    den: "get_column df3 (c @ ''_denominator'') = Inr (map Number den)" and
    ld: "length den = nrows df3"
    by blast
  define q where "q = map2 vdiv num den"
  have "\<exists>out. collect_metrics df3 \<lparr>labels = labels df3, cols = []\<rparr> columns = Inr out"
    by (rule collect_metrics_total) (use cols in blast)
  then obtain out where
    out: "collect_metrics df3 \<lparr>labels = labels df3, cols = []\<rparr> columns = Inr out"
    by blast
  have agg: "aggregate df columns (Some index) = Inr out"
    using assms(1) out by (simp add: aggregate_def)
  have lab: "labels out = labels df3"
    using collect_metrics_labels [OF out] by simp
  have val: "get_column out c = Inr (map Number q)"
    unfolding q_def using out assms(2,3,4) num den by (rule collect_metrics_value)
  have lq: "length q = nrows df3"
    using ln ld by (simp add: q_def)
  have quot: "if den ! i = Flt 0
        then (if num ! i = Flt 0 \<or> num ! i = NaN then q ! i = NaN
              else q ! i = PosInf \<or> q ! i = NegInf)
        else q ! i = vdiv (num ! i) (den ! i)"
    if "i < nrows df3" for i
  proof -
    have "q ! i = vdiv (num ! i) (den ! i)"
      using that ln ld by (simp add: q_def)
    then show ?thesis by (simp add: vdiv_zero)
  qed
  show ?thesis
    using agg lab num den ln ld val lq quot by blast
qed

theorem aggregate_zero_denominator_witness:
  "aggregated
     \<lparr>labels = [[Number (Flt 0)], [Number (Flt 1)]],
      cols = [(''g'', [Text ''a'', Text ''a'']), (''x'', [Number (Flt 1), Number (Flt 3)]),
              (''w'', [Number (Flt 0), Number (Flt 0)])]\<rparr>
     [(''r'', \<lparr>numerator = Some (Str ''x''), denominator = Some (Str ''w''),
               func = Some (Named ''sum''), denominator_func = None\<rparr>)]
     (Some (Name ''g''))
   = Inr \<lparr>labels = [[Text ''a'']],
          cols = [(''r_numerator'', [Number (Flt 4)]), (''r_denominator'', [Number (Flt 0)])]\<rparr> \<and>
   (\<exists>out v. aggregate
     \<lparr>labels = [[Number (Flt 0)], [Number (Flt 1)]],
      cols = [(''g'', [Text ''a'', Text ''a'']), (''x'', [Number (Flt 1), Number (Flt 3)]),
              (''w'', [Number (Flt 0), Number (Flt 0)])]\<rparr>
     [(''r'', \<lparr>numerator = Some (Str ''x''), denominator = Some (Str ''w''),
               func = Some (Named ''sum''), denominator_func = None\<rparr>)]
     (Some (Name ''g'')) = Inr out \<and>
     get_column out ''r'' = Inr [Number v] \<and> (v = PosInf \<or> v = NegInf))"
proof -
  let ?df = "\<lparr>labels = [[Number (Flt 0)], [Number (Flt 1)]],
      cols = [(''g'', [Text ''a'', Text ''a'']), (''x'', [Number (Flt 1), Number (Flt 3)]),
              (''w'', [Number (Flt 0), Number (Flt 0)])]\<rparr>"
  let ?agg = "\<lparr>numerator = Some (Str ''x''), denominator = Some (Str ''w''),
               func = Some (Named ''sum''), denominator_func = None\<rparr>"
  let ?df3 = "\<lparr>labels = [[Text ''a'']],
          cols = [(''r_numerator'', [Number (Flt 4)]), (''r_denominator'', [Number (Flt 0)])]\<rparr>"
  have d: "distinct (map fst [(''r'', ?agg)])" by simp
  have m: "(''r'', ?agg) \<in> set [(''r'', ?agg)]" by simp
  have n: "denominator ?agg \<noteq> None" by simp
  have rows: "nrows ?df3 = 1" by (simp add: nrows_def)
  from aggregate_zero_denominator [OF aggregated_example d m n]
  obtain out num den q where
    out: "aggregate ?df [(''r'', ?agg)] (Some (Name ''g'')) = Inr out" and
    num: "get_column ?df3 (''r'' @ ''_numerator'') = Inr (map Number num)" and
    den: "get_column ?df3 (''r'' @ ''_denominator'') = Inr (map Number den)" and
    val: "get_column out ''r'' = Inr (map Number q)" and
    lq: "length q = nrows ?df3" and
    quot: "\<forall>i<nrows ?df3.
        if den ! i = Flt 0
        then (if num ! i = Flt 0 \<or> num ! i = NaN then q ! i = NaN
              else q ! i = PosInf \<or> q ! i = NegInf)
        else q ! i = vdiv (num ! i) (den ! i)"
    by blast
  from num have "num = [Flt 4]" by (auto simp: get_column_def)
  moreover from den have "den = [Flt 0]" by (auto simp: get_column_def)
  ultimately have inf: "q ! 0 = PosInf \<or> q ! 0 = NegInf"
    using quot rows by simp
  have "length q = 1" using lq rows by simp
  then have "q = [q ! 0]" by (cases q) simp_all
  then have "get_column out ''r'' = Inr [Number (q ! 0)]"
    using val by (metis list.simps(8,9))
  then show ?thesis using out inf aggregated_example by blast
qed

text \<open>
  C2 as stated fails: the two rows of one group with \<open>x = 1, 3\<close> and \<open>w = 0, 0\<close> aggregate
  to \<open>4\<close> over \<open>0\<close>, and the metric of the group is \<open>+inf\<close>, which is not a missing value.
\<close>

theorem aggregate_zero_denominator_example:
  "aggregate
     \<lparr>labels = [[Number (Flt 0)], [Number (Flt 1)]],
      cols = [(''g'', [Text ''a'', Text ''a'']), (''x'', [Number (Flt 1), Number (Flt 3)]),
              (''w'', [Number (Flt 0), Number (Flt 0)])]\<rparr>
     [(''r'', \<lparr>numerator = Some (Str ''x''), denominator = Some (Str ''w''),
               func = Some (Named ''sum''), denominator_func = None\<rparr>)]
     (Some (Name ''g''))
   = Inr \<lparr>labels = [[Text ''a'']], cols = [(''r'', [Number PosInf])]\<rparr> \<and>
   \<not> is_null (Number PosInf)"
  by (simp add: aggregate_def aggregated_example get_column_def divide_columns_def
      divide_cells_def set_column_def column_names_def signed_inf_def)

section \<open>Properties of the SpacetimeAggregator\<close>

text \<open>
  An aggregator made by \<open>__init__\<close> has no attribute \<open>dtypes\<close>, and without it \<open>read\<close>
  with \<open>pivot=True\<close> returns no panel that has a column.
\<close>

lemma init_dtypes: "dtypes (init strftime sd ds pre basedir) = None"
  by (simp add: init_def)

lemma read_pivot_without_dtypes:
  assumes "dtypes self = None" and "read str astype store self left True = Inr out"
  shows "cols out = []"
proof -
  from assms(2) obtain dfs where
    dfs: "collect (map (\<lambda>d. read_date store self d left) (dates self)) = Inr dfs"
    by (cases "collect (map (\<lambda>d. read_date store self d left) (dates self))")
       (simp_all add: read_def)
  from assms(2) dfs obtain df where df: "pd_concat dfs = Inr df"
    by (cases "pd_concat dfs") (simp_all add: read_def)
  from assms(2) dfs df obtain df1 where
    df1: "set_index df [''id'', ''date'', ''space'', ''delta''] = Inr df1"
    by (cases "set_index df [''id'', ''date'', ''space'', ''delta'']") (simp_all add: read_def)
  from assms(2) dfs df df1 obtain p where p: "unstack df1 = Inr p"
    by (cases "unstack df1") (simp_all add: read_def)
  define columns where "columns =
     (case levels p of
        (column_level, space_level, delta_level) \<Rightarrow>
          concat (map (\<lambda>c. concat (map (\<lambda>s. map (\<lambda>d. (c, s, d)) delta_level) space_level))
                    column_level))"
  have "columns = []"
  proof (rule ccontr)
    assume "columns \<noteq> []"
    then have "read str astype store self left True = Inl (AttributeError ''dtypes'')"
      using dfs df df1 p assms(1) by (simp add: read_def Let_def columns_def)
    then show False using assms(2) by simp
  qed
  then show ?thesis
    using assms(2) dfs df df1 p
    by (simp add: read_def Let_def columns_def split: if_splits) auto
qed

text \<open>
  With the attribute, the same snapshot is read, pivoted, cast and renamed.
\<close>

lemma read_pivot_with_dtypes_example:
  "read (\<lambda>c. case c of Text s \<Rightarrow> s | _ \<Rightarrow> []) (\<lambda>ty v. Inr v)
     [''/data/tests/20130101.hdf'' \<mapsto>
        \<lparr>labels = [[Number (Flt 0)], [Number (Flt 1)]],
         cols = [(''id'', [Number (Flt 7), Number (Flt 8)]),
                 (''space'', [Text ''tract'', Text ''tract'']),
                 (''delta'', [Text ''1y'', Text ''1y'']),
                 (''count'', [Number (Flt 5), Number (Flt 6)])]\<rparr>]
     ((init (\<lambda>d. ''20130101'')
        [(''tract'', \<lparr>spatial_index = ''tract_id'',
                       deltas = [(''1y'', Some (Relativedelta ''years'' 1))]\<rparr>)]
        [15706] ''tests'' ''/data'')\<lparr>dtypes := Some [(''count'', ''int64'')]\<rparr>)
     None True
   = Inr \<lparr>labels = [[Number (Flt 7), Date 15706], [Number (Flt 8), Date 15706]],
          cols = [(''tests_tract_1y_count'', [Number (Flt 5), Number (Flt 6)])]\<rparr>"
  by (simp add: read_def init_def path_join_def dict_set_def read_date_def set_column_def
      column_names_def nrows_def pd_concat_def concat_columns_def column_or_missing_def
      set_index_def get_column_def unstack_def sort_keys_def sort_by_def Let_def
      upt_conv_Cons column_name_def)

text \<open>
  C5: \<open>read\<close> with \<open>pivot=True\<close> on an aggregator constructed with a space, a date, the
  prefix \<open>tests\<close> and the base directory \<open>/data\<close>, whose snapshot holds two rows of the
  metric \<open>count\<close>. The filter over the pivoted columns reads \<open>self.dtypes\<close>, which the
  constructor never sets: the call raises \<open>AttributeError\<close> and returns no panel.
\<close>

theorem read_pivot_dtypes:
  "read str astype
     [''/data/tests/20130101.hdf'' \<mapsto>
        \<lparr>labels = [[Number (Flt 0)], [Number (Flt 1)]],
         cols = [(''id'', [Number (Flt 7), Number (Flt 8)]),
                 (''space'', [Text ''tract'', Text ''tract'']),
                 (''delta'', [Text ''1y'', Text ''1y'']),
                 (''count'', [Number (Flt 5), Number (Flt 6)])]\<rparr>]
     (init (\<lambda>d. ''20130101'')
        [(''tract'', \<lparr>spatial_index = ''tract_id'',
                       deltas = [(''1y'', Some (Relativedelta ''years'' 1))]\<rparr>)]
        [15706] ''tests'' ''/data'')
     None True
   = Inl (AttributeError ''dtypes'')"
  by (simp add: read_def init_def path_join_def dict_set_def read_date_def set_column_def
      column_names_def nrows_def pd_concat_def concat_columns_def column_or_missing_def
      set_index_def get_column_def unstack_def sort_keys_def sort_by_def Let_def
      upt_conv_Cons)

end
